theory Spec2Isabelle
  imports Main "HOL-Library.AList"
begin

section \<open>Incremental revision synchronisation (ws/db/grabbers/revision.py)\<close>

text \<open>
  A shallow embedding of \<^verbatim>\<open>GrabberRevisions\<close>. The generators \<^verbatim>\<open>gen_insert\<close> and
  \<^verbatim>\<open>gen_update\<close> yield pairs of an SQL statement and its parameters; here each such
  pair is a value of the datatype \<open>op\<close>, a generator is the record of what it has
  yielded so far together with its local variables, and an exception raised in the
  generator body ends it with the yielded prefix kept.

  Python sets that the code iterates over are lists without duplicates in insertion
  order (the iteration order of a Python set is unspecified; no statement below depends
  on it); Python dicts are association lists, which keep the insertion order as the
  dicts of Python do.
\<close>

subsection \<open>Data received from the remote API and from the log\<close>

type_synonym timestamp = int

text \<open>One revision object of an API response. A key that the code reads with
  \<^verbatim>\<open>rev.get\<close> or tests with \<^verbatim>\<open>in\<close> is optional; \<^verbatim>\<open>rev["*"]\<close> is present only when the
  content was delivered.\<close>

record api_rev =
  revid :: int
  rv_comment :: string
  rv_userid :: int
  rv_user :: string
  rv_timestamp :: timestamp
  rv_minor :: bool
  rv_size :: int
  rv_parentid :: "int option"
  rv_sha1 :: string
  rv_contentmodel :: string
  rv_contentformat :: "string option"
  rv_tags :: "string list option"
  rv_content :: "string option"

record api_page =
  pageid :: "int option"
  pg_title :: string
  pg_ns :: int
  revisions :: "api_rev list option"
  deletedrevisions :: "api_rev list option"

text \<open>The result of \<^verbatim>\<open>api.call_api(params, expand_result=False)\<close>: which continuation
  keys it has, and \<^verbatim>\<open>result["query"]["pages"].values()\<close>.\<close>

record api_result =
  drvcontinue :: bool
  rvcontinue :: bool
  pages :: "api_page list"

text \<open>\<^verbatim>\<open>le["params"]\<close> of a log event, by the keys the code reads from it.\<close>

datatype le_params =
    ParamsRevDel string "int list" int
  | ParamsMerge int string timestamp
  | ParamsTag "int option" "string list" "string list"
  | ParamsOther

record logevent =
  le_type :: string
  le_action :: string
  le_title :: string
  le_logpage :: int
  le_params :: le_params

datatype error = NotImplementedError string | KeyError string | AssertionError

subsection \<open>Rows and storage operations\<close>

record text_row =
  old_id :: int
  old_text :: string
  old_flags :: string

text \<open>A row of \<^verbatim>\<open>revision\<close>. As the parameter of an insert it is the row proposed for
  insertion: a column that \<^verbatim>\<open>db_entry\<close> does not set has its default (\<open>rev_deleted\<close> is
  0, visible; \<open>rev_text_id\<close> is null).\<close>

record revision_row =
  rev_id :: int
  rev_page :: "int option"
  rev_text_id :: "int option"
  rev_comment :: string
  rev_user :: int
  rev_user_text :: string
  rev_timestamp :: timestamp
  rev_minor_edit :: bool
  rev_deleted :: int
  rev_len :: int
  rev_parent_id :: "int option"
  rev_sha1 :: string
  rev_content_model :: string
  rev_content_format :: "string option"

record archive_row =
  ar_namespace :: int
  ar_title :: string
  ar_rev_id :: int
  ar_page_id :: "int option"
  ar_text_id :: "int option"
  ar_comment :: string
  ar_user :: int
  ar_user_text :: string
  ar_timestamp :: timestamp
  ar_minor_edit :: bool
  ar_deleted :: int
  ar_len :: int
  ar_parent_id :: "int option"
  ar_sha1 :: string
  ar_content_model :: string
  ar_content_format :: "string option"

text \<open>The statements of \<^verbatim>\<open>self.sql\<close>, each with the parameters it is yielded with.
  \<open>UpdateArchivePageId\<close> has \<open>b_namespace\<close>, \<open>b_title\<close> and \<open>ar_page_id\<close>; \<open>b_title\<close> is
  a Python tuple. \<open>MergeRevision\<close> has \<open>b_src_page_id\<close>, \<open>b_dest_ns\<close>,
  \<open>b_dest_title\<close> and \<open>b_mergepoint\<close>.\<close>

datatype op =
    InsertText text_row
  | InsertRevision revision_row
  | InsertArchive archive_row
  | InsertTaggedRevision int string
  | InsertTaggedArchivedRevision int string
  | DeleteTaggedRevision int string
  | DeleteTaggedArchivedRevision int string
  | UpdateArchivePageId int "string list" int
  | MergeRevision int int string timestamp
  | UpdateRevDeleted int int
  | UpdateArDeleted int int
  | MoveRevision int
  | MoveTaggedArchivedRevision int

subsection \<open>The collaborators of one run\<close>

text \<open>
  What the grabber reads from outside during one run. \<open>text_old_ids\<close> is the column
  \<open>old_id\<close> of the relation \<open>text\<close> when the allocator is seeded;
  \<open>revision_exists\<close> answers the query \<^verbatim>\<open>exists().where(rev_id == revid)\<close>.
  \<open>iter_chunks_titles\<close> and \<open>iter_chunks_ids\<close> stand for
  \<^verbatim>\<open>ws.utils.iter_chunks(_, api.max_ids_per_query)\<close>, \<open>title_namespacenumber\<close> and
  \<open>title_dbtitle\<close> for the class \<^verbatim>\<open>Title\<close>, \<open>value_or_none\<close> for the function of that
  name in \<^verbatim>\<open>ws.utils\<close>: they belong to other modules and are parameters here.
\<close>

record env =
  with_content :: bool
  text_old_ids :: "int list"
  list_allrevisions :: "timestamp option \<Rightarrow> api_page list"
  list_alldeletedrevisions :: "api_page list"
  logevents_list :: "timestamp \<Rightarrow> logevent list"
  call_api_deleted :: "string list \<Rightarrow> timestamp \<Rightarrow> api_result"
  call_api_imported :: "int list \<Rightarrow> api_result"
  iter_chunks_titles :: "string list \<Rightarrow> string list list"
  iter_chunks_ids :: "int list \<Rightarrow> int list list"
  title_namespacenumber :: "string \<Rightarrow> int"
  title_dbtitle :: "string \<Rightarrow> int \<Rightarrow> string"
  value_or_none :: "int option \<Rightarrow> int option"
  revision_exists :: "int \<Rightarrow> bool"

subsection \<open>Generators\<close>

text \<open>The frame of a running generator: the statements yielded so far, the value of
  the text-ID generator and the values it has returned, the local set \<open>new_revids\<close> of
  \<^verbatim>\<open>gen_update\<close>, and the exception that ended it, if any.\<close>

record gen =
  yielded :: "op list"
  text_id_value :: int
  allocated :: "int list"
  new_revids :: "int list"
  raised :: "error option"

definition yield :: "op \<Rightarrow> gen \<Rightarrow> gen" where
  "yield x g = g\<lparr>yielded := yielded g @ [x]\<rparr>"

definition yields :: "op list \<Rightarrow> gen \<Rightarrow> gen" where
  "yields xs g = g\<lparr>yielded := yielded g @ xs\<rparr>"

definition raise :: "error \<Rightarrow> gen \<Rightarrow> gen" where
  "raise e g = g\<lparr>raised := Some e\<rparr>"

text \<open>A \<^verbatim>\<open>for\<close> loop whose body may raise: the loop ends at the first exception.\<close>

fun for_each :: "('a \<Rightarrow> gen \<Rightarrow> gen) \<Rightarrow> 'a list \<Rightarrow> gen \<Rightarrow> gen" where
  "for_each body [] g = g"
| "for_each body (x # xs) g =
     (let g' = body x g in if raised g' = None then for_each body xs g' else g')"

text \<open>Two statements in sequence: the second runs unless the first raised.\<close>

definition and_then :: "(gen \<Rightarrow> gen) \<Rightarrow> (gen \<Rightarrow> gen) \<Rightarrow> gen \<Rightarrow> gen" where
  "and_then f h g = (let g' = f g in if raised g' = None then h g' else g')"

text \<open>\<^verbatim>\<open>s.add(x)\<close> on a Python set.\<close>

definition set_add :: "'a \<Rightarrow> 'a list \<Rightarrow> 'a list" where
  "set_add x xs = (if x \<in> set xs then xs else xs @ [x])"

subsubsection \<open>The text-ID allocator\<close>

text \<open>\<^verbatim>\<open>sa.sql.func.max\<close> over a column: null on an empty relation.\<close>

definition sql_max :: "int list \<Rightarrow> int option" where
  "sql_max xs = (case xs of [] \<Rightarrow> None | y # ys \<Rightarrow> Some (fold max ys y))"

text \<open>\<^verbatim>\<open>_get_text_id_gen\<close> up to its loop: the value the counter starts from.\<close>

definition get_text_id_gen :: "env \<Rightarrow> int" where
  "get_text_id_gen e = (case sql_max (text_old_ids e) of None \<Rightarrow> 0 | Some v \<Rightarrow> v)"

text \<open>\<^verbatim>\<open>next(self.text_id_gen)\<close>: one turn of \<^verbatim>\<open>while True: value += 1; yield value\<close>.\<close>

definition next_text_id :: "gen \<Rightarrow> int \<times> gen" where
  "next_text_id g =
     (let v = text_id_value g + 1
      in (v, g\<lparr>text_id_value := v, allocated := allocated g @ [v]\<rparr>))"

definition gen_text :: "api_rev \<Rightarrow> int \<Rightarrow> gen \<Rightarrow> gen" where
  "gen_text rv text_id g =
     (case rv_content rv of
        None \<Rightarrow> raise (KeyError ''*'') g
      | Some c \<Rightarrow> yield (InsertText \<lparr>old_id = text_id, old_text = c, old_flags = ''utf-8''\<rparr>) g)"

subsubsection \<open>Revisions and deleted revisions of one page\<close>

definition tags_of :: "api_rev \<Rightarrow> string list" where
  "tags_of rv = (case rv_tags rv of None \<Rightarrow> [] | Some ts \<Rightarrow> ts)"

definition gen_revisions_body :: "env \<Rightarrow> api_page \<Rightarrow> api_rev \<Rightarrow> gen \<Rightarrow> gen" where
  "gen_revisions_body e page rv g =
     (let db_entry = \<lparr>rev_id = revid rv,
            rev_page = value_or_none e (pageid page),
            rev_text_id = None,
            rev_comment = rv_comment rv,
            rev_user = rv_userid rv,
            rev_user_text = rv_user rv,
            rev_timestamp = rv_timestamp rv,
            rev_minor_edit = rv_minor rv,
            rev_deleted = 0,
            rev_len = rv_size rv,
            rev_parent_id = rv_parentid rv,
            rev_sha1 = rv_sha1 rv,
            rev_content_model = rv_contentmodel rv,
            rev_content_format = rv_contentformat rv\<rparr>;
          (db_entry', g') =
            (if with_content e
             then (let (text_id, g1) = next_text_id g
                   in (db_entry\<lparr>rev_text_id := Some text_id\<rparr>, gen_text rv text_id g1))
             else (db_entry, g))
      in if raised g' \<noteq> None then g'
         else yields (map (InsertTaggedRevision (revid rv)) (tags_of rv))
                (yield (InsertRevision db_entry') g'))"

definition gen_revisions :: "env \<Rightarrow> api_page \<Rightarrow> gen \<Rightarrow> gen" where
  "gen_revisions e page g =
     (case revisions page of
        None \<Rightarrow> raise (KeyError ''revisions'') g
      | Some revs \<Rightarrow> for_each (gen_revisions_body e page) revs g)"

definition gen_deletedrevisions_body :: "env \<Rightarrow> api_page \<Rightarrow> api_rev \<Rightarrow> gen \<Rightarrow> gen" where
  "gen_deletedrevisions_body e page rv g =
     (let db_entry = \<lparr>ar_namespace = pg_ns page,
            ar_title = title_dbtitle e (pg_title page) (pg_ns page),
            ar_rev_id = revid rv,
            ar_page_id = None,
            ar_text_id = None,
            ar_comment = rv_comment rv,
            ar_user = rv_userid rv,
            ar_user_text = rv_user rv,
            ar_timestamp = rv_timestamp rv,
            ar_minor_edit = rv_minor rv,
            ar_deleted = 0,
            ar_len = rv_size rv,
            ar_parent_id = None,
            ar_sha1 = rv_sha1 rv,
            ar_content_model = rv_contentmodel rv,
            ar_content_format = rv_contentformat rv\<rparr>;
          (db_entry', g') =
            (if with_content e
             then (let (text_id, g1) = next_text_id g
                   in (db_entry\<lparr>ar_text_id := Some text_id\<rparr>, gen_text rv text_id g1))
             else (db_entry, g))
      in if raised g' \<noteq> None then g'
         else yields (map (InsertTaggedArchivedRevision (revid rv)) (tags_of rv))
                (yield (InsertArchive db_entry') g'))"

definition gen_deletedrevisions :: "env \<Rightarrow> api_page \<Rightarrow> gen \<Rightarrow> gen" where
  "gen_deletedrevisions e page g =
     (case revisions page of
        None \<Rightarrow> raise (KeyError ''revisions'') g
      | Some revs \<Rightarrow> for_each (gen_deletedrevisions_body e page) revs g)"

text \<open>The generator as it is when \<^verbatim>\<open>gen_insert\<close> or \<^verbatim>\<open>gen_update\<close> starts: a new
  text-ID generator, nothing yielded.\<close>

definition new_gen :: "env \<Rightarrow> gen" where
  "new_gen e = \<lparr>yielded = [], text_id_value = get_text_id_gen e, allocated = [],
                new_revids = [], raised = None\<rparr>"

definition gen_insert :: "env \<Rightarrow> gen" where
  "gen_insert e =
     and_then (for_each (gen_revisions e) (list_allrevisions e None))
              (for_each (gen_deletedrevisions e) (list_alldeletedrevisions e))
       (new_gen e)"

subsection \<open>The log events of the window\<close>

text \<open>The local variables of \<^verbatim>\<open>gen_update\<close> that the loop over the log events fills.
  \<open>deleted_pages\<close>, \<open>moved_pages\<close> and \<open>imported_pages\<close> are sets, the others
  dicts; the values of \<open>added_tags\<close> and \<open>removed_tags\<close> are sets of tag names.\<close>

record lstate =
  deleted_pages :: "string list"
  undeleted_pages :: "(string \<times> int) list"
  merged_pages :: "(int \<times> le_params) list"
  moved_pages :: "int list"
  deleted_revisions :: "(int \<times> int) list"
  added_tags :: "(int \<times> string list) list"
  removed_tags :: "(int \<times> string list) list"
  imported_pages :: "int list"

definition init_lstate :: lstate where
  "init_lstate = \<lparr>deleted_pages = [], undeleted_pages = [], merged_pages = [],
     moved_pages = [], deleted_revisions = [], added_tags = [], removed_tags = [],
     imported_pages = []\<rparr>"

text \<open>\<^verbatim>\<open>d.get(revid, set())\<close> on a dict of sets.\<close>

definition tags_get :: "(int \<times> string list) list \<Rightarrow> int \<Rightarrow> string list" where
  "tags_get d k = (case map_of d k of None \<Rightarrow> [] | Some s \<Rightarrow> s)"

text \<open>The body of \<^verbatim>\<open>for _tag in _added\<close>, on the pair of \<open>added_tags\<close> and
  \<open>removed_tags\<close>, and the body of \<^verbatim>\<open>for _tag in _removed\<close>.\<close>

definition tag_added ::
  "int \<Rightarrow> string \<Rightarrow> (int \<times> string list) list \<times> (int \<times> string list) list
     \<Rightarrow> (int \<times> string list) list \<times> (int \<times> string list) list" where
  "tag_added r t ar =
     (case ar of (added, removed) \<Rightarrow>
        if t \<in> set (tags_get removed r)
        then (added, AList.update r (removeAll t (tags_get removed r)) removed)
        else (AList.update r (set_add t (tags_get added r)) added, removed))"

definition tag_removed ::
  "int \<Rightarrow> string \<Rightarrow> (int \<times> string list) list \<times> (int \<times> string list) list
     \<Rightarrow> (int \<times> string list) list \<times> (int \<times> string list) list" where
  "tag_removed r t ar =
     (case ar of (added, removed) \<Rightarrow>
        if t \<in> set (tags_get added r)
        then (AList.update r (removeAll t (tags_get added r)) added, removed)
        else (added, AList.update r (set_add t (tags_get removed r)) removed))"

text \<open>\<^verbatim>\<open>"revid" in le["params"]\<close>\<close>

definition has_revid :: "le_params \<Rightarrow> bool" where
  "has_revid ps = (case ps of ParamsTag (Some r) tagsAdded tagsRemoved \<Rightarrow> True | _ \<Rightarrow> False)"

text \<open>The branch for \<^verbatim>\<open>le["type"] == "tag" and le["action"] == "update"\<close>.\<close>

definition tag_update :: "int list \<Rightarrow> int list \<Rightarrow> le_params \<Rightarrow> lstate \<Rightarrow> error + lstate" where
  "tag_update nrv ndrv ps st =
     (case ps of
        ParamsTag (Some r) tagsAdded tagsRemoved \<Rightarrow>
          if r \<notin> set nrv \<and> r \<notin> set ndrv then
            (let a = remdups tagsAdded; rm = remdups tagsRemoved
             in if \<exists>t \<in> set a. t \<in> set rm then Inl AssertionError
                else (case fold (tag_removed r) rm
                             (fold (tag_added r) a (added_tags st, removed_tags st)) of
                        (added, removed) \<Rightarrow>
                          Inr (st\<lparr>added_tags := added, removed_tags := removed\<rparr>)))
          else Inr st
      | _ \<Rightarrow> Inr st)"

text \<open>The body of \<^verbatim>\<open>for le in logevents.list(self.db, le_params)\<close>. The arguments
  \<open>nrv\<close> and \<open>ndrv\<close> are \<open>new_revids\<close> and \<open>new_deleted_revids\<close>.\<close>

definition logevent_step :: "int list \<Rightarrow> int list \<Rightarrow> logevent \<Rightarrow> lstate \<Rightarrow> error + lstate" where
  "logevent_step nrv ndrv le st =
     (if le_type le = ''delete'' then
        (if le_action le = ''delete'' then
           Inr (st\<lparr>deleted_pages := set_add (le_title le) (deleted_pages st),
                   undeleted_pages := AList.delete (le_title le) (undeleted_pages st)\<rparr>)
         else if le_action le = ''restore'' then
           Inr (st\<lparr>undeleted_pages :=
                     AList.update (le_title le) (le_logpage le) (undeleted_pages st),
                   deleted_pages := removeAll (le_title le) (deleted_pages st)\<rparr>)
         else if le_action le = ''revision'' then
           (case le_params le of
              ParamsRevDel ty ids bitmask \<Rightarrow>
                if ty \<noteq> ''revision'' then Inl AssertionError
                else Inr (st\<lparr>deleted_revisions :=
                            fold (\<lambda>r. AList.update r bitmask) ids (deleted_revisions st)\<rparr>)
            | _ \<Rightarrow> Inl (KeyError ''type''))
         else Inr st)
      else if le_type le = ''import'' then
        Inr (st\<lparr>imported_pages := set_add (le_logpage le) (imported_pages st)\<rparr>)
      else if le_type le = ''merge'' then
        Inr (st\<lparr>merged_pages := AList.update (le_logpage le) (le_params le) (merged_pages st)\<rparr>)
      else if le_type le = ''move'' then
        Inr (st\<lparr>moved_pages := set_add (le_logpage le) (moved_pages st)\<rparr>)
      else if le_type le = ''tag'' \<and> le_action le = ''update'' then
        tag_update nrv ndrv (le_params le) st
      else Inr st)"

fun log_loop :: "int list \<Rightarrow> int list \<Rightarrow> logevent list \<Rightarrow> lstate \<Rightarrow> error + lstate" where
  "log_loop nrv ndrv [] st = Inr st"
| "log_loop nrv ndrv (le # les) st =
     (case logevent_step nrv ndrv le st of
        Inl err \<Rightarrow> Inl err
      | Inr st' \<Rightarrow> log_loop nrv ndrv les st')"

subsection \<open>The phases of \<^verbatim>\<open>gen_update\<close> after the log\<close>

text \<open>\<^verbatim>\<open>for rev in page["revisions"]: new_revids.add(rev["revid"])\<close>\<close>

definition add_new_revids :: "api_rev list \<Rightarrow> gen \<Rightarrow> gen" where
  "add_new_revids revs g = g\<lparr>new_revids := fold set_add (map revid revs) (new_revids g)\<rparr>"

definition arv_body :: "env \<Rightarrow> api_page \<Rightarrow> gen \<Rightarrow> gen" where
  "arv_body e page =
     and_then (gen_revisions e page)
       (\<lambda>g. case revisions page of None \<Rightarrow> raise (KeyError ''revisions'') g
                                  | Some revs \<Rightarrow> add_new_revids revs g)"

text \<open>Undelete: the body of \<^verbatim>\<open>for _title, pageid in undeleted_pages.items()\<close>. The
  trailing comma of \<^verbatim>\<open>dbtitle = title.dbtitle(ns),\<close> makes \<open>b_title\<close> a tuple of one
  string.\<close>

definition undelete_body :: "env \<Rightarrow> string \<times> int \<Rightarrow> gen \<Rightarrow> gen" where
  "undelete_body e tp g =
     (case tp of (title, pid) \<Rightarrow>
        let ns = title_namespacenumber e title;
            dbtitle = [title_dbtitle e title ns]
        in yield (MoveRevision pid)
             (yield (MoveTaggedArchivedRevision pid)
                (yield (UpdateArchivePageId ns dbtitle pid) g)))"

text \<open>\<^verbatim>\<open>page["revisions"] = page.pop("deletedrevisions")\<close>, then the deleted revisions
  of the page, for a page that has the key \<^verbatim>\<open>deletedrevisions\<close>.\<close>

definition deleted_page_body :: "env \<Rightarrow> api_page \<Rightarrow> gen \<Rightarrow> gen" where
  "deleted_page_body e page g =
     (case deletedrevisions page of
        None \<Rightarrow> g
      | Some drevs \<Rightarrow>
          and_then
            (gen_deletedrevisions e (page\<lparr>revisions := Some drevs, deletedrevisions := None\<rparr>))
            (add_new_revids drevs) g)"

definition deleted_chunk_body :: "env \<Rightarrow> timestamp \<Rightarrow> string list \<Rightarrow> gen \<Rightarrow> gen" where
  "deleted_chunk_body e since chunk g =
     (let result = call_api_deleted e chunk since
      in if drvcontinue result
         then raise (NotImplementedError
                ''Handling of the 'drvcontinue' parameter is not implemented.'') g
         else for_each (deleted_page_body e) (pages result) g)"

definition imported_page_body :: "env \<Rightarrow> api_page \<Rightarrow> gen \<Rightarrow> gen" where
  "imported_page_body e page =
     and_then
       (\<lambda>g. case revisions page of
               None \<Rightarrow> g
             | Some revs \<Rightarrow> and_then (gen_revisions e page) (add_new_revids revs) g)
       (deleted_page_body e page)"

definition imported_chunk_body :: "env \<Rightarrow> int list \<Rightarrow> gen \<Rightarrow> gen" where
  "imported_chunk_body e chunk g =
     (let result = call_api_imported e chunk
      in if rvcontinue result \<or> drvcontinue result
         then raise (NotImplementedError
                ''Handling of the 'rvcontinue' and 'drvcontinue' parameters is not implemented.'') g
         else for_each (imported_page_body e) (pages result) g)"

text \<open>Merge: the body of \<^verbatim>\<open>for pageid, params in merged_pages.items()\<close>. The message
  is the string literal of the source, on which \<^verbatim>\<open>format\<close> is not called.\<close>

definition merge_body :: "int list \<Rightarrow> int \<times> le_params \<Rightarrow> gen \<Rightarrow> gen" where
  "merge_body moved pp g =
     (case pp of (pid, params) \<Rightarrow>
        if pid \<in> set moved
        then raise (NotImplementedError
               ''Cannot merge revisions from [[{}]] to [[{}]]: target page has been moved.'') g
        else (case params of
                ParamsMerge dest_ns dest_title mergepoint \<Rightarrow>
                  yield (MergeRevision pid dest_ns dest_title mergepoint) g
              | _ \<Rightarrow> raise (KeyError ''dest_ns'') g))"

definition bitmask_body :: "int \<times> int \<Rightarrow> gen \<Rightarrow> gen" where
  "bitmask_body rb g =
     (case rb of (r, bitmask) \<Rightarrow>
        yield (UpdateArDeleted r bitmask) (yield (UpdateRevDeleted r bitmask) g))"

text \<open>The statement yielded for one added tag: which relation it goes to is decided by
  the query whether the revision is in \<open>revision\<close>.\<close>

definition add_tag_op :: "env \<Rightarrow> int \<Rightarrow> string \<Rightarrow> op" where
  "add_tag_op e r t =
     (if revision_exists e r then InsertTaggedRevision r t
      else InsertTaggedArchivedRevision r t)"

definition added_tags_body :: "env \<Rightarrow> int \<times> string list \<Rightarrow> gen \<Rightarrow> gen" where
  "added_tags_body e ra g =
     (case ra of (r, added) \<Rightarrow> for_each (\<lambda>t. yield (add_tag_op e r t)) added g)"

definition removed_tags_body :: "int \<times> string list \<Rightarrow> gen \<Rightarrow> gen" where
  "removed_tags_body rr g =
     (case rr of (r, removed) \<Rightarrow>
        for_each (\<lambda>t g. yield (DeleteTaggedArchivedRevision r t)
                          (yield (DeleteTaggedRevision r t) g)) removed g)"

text \<open>The two loops under \<^verbatim>\<open># update tags\<close>.\<close>

definition gen_tag_updates :: "env \<Rightarrow> lstate \<Rightarrow> gen \<Rightarrow> gen" where
  "gen_tag_updates e st =
     and_then (for_each (added_tags_body e) (added_tags st))
              (for_each removed_tags_body (removed_tags st))"

text \<open>Everything of \<^verbatim>\<open>gen_update\<close> after the loop over the log events.\<close>

definition after_log :: "env \<Rightarrow> timestamp \<Rightarrow> lstate \<Rightarrow> gen \<Rightarrow> gen" where
  "after_log e since st =
     and_then (for_each (undelete_body e) (undeleted_pages st))
    (and_then (for_each (deleted_chunk_body e since)
                 (iter_chunks_titles e (deleted_pages st)))
    (and_then (for_each (imported_chunk_body e) (iter_chunks_ids e (imported_pages st)))
    (and_then (for_each (merge_body (moved_pages st)) (merged_pages st))
    (and_then (for_each bitmask_body (deleted_revisions st))
              (gen_tag_updates e st)))))"

definition gen_update :: "env \<Rightarrow> timestamp \<Rightarrow> gen" where
  "gen_update e since =
     and_then (for_each (arv_body e) (list_allrevisions e (Some since)))
       (\<lambda>g. let new_deleted_revids = []
            in case log_loop (new_revids g) new_deleted_revids (logevents_list e since)
                      init_lstate of
                 Inl err \<Rightarrow> raise err g
               | Inr st \<Rightarrow> after_log e since st g)
       (new_gen e)"

subsection \<open>The statements on the replica\<close>

text \<open>
  The relations that the statements of \<^verbatim>\<open>self.sql\<close> read and write, each a list of rows,
  and what each statement does to them. The upsert into \<open>archive\<close> names its conflict
  target, \<open>ar_rev_id\<close>; the other two name the primary keys of \<open>text\<close> and
  \<open>revision\<close>, which are \<open>old_id\<close> and \<open>rev_id\<close>: a blob is identified by its ID and
  a revision by its revision ID.
\<close>

record page_row =
  page_id :: int
  page_namespace :: int
  page_title :: string

text \<open>Modelled from the spec: the schema of the relations is declared in another module.
  A tag link is a pair of a revision ID and a tag name, as in the data model of the
  specification; the statements reach the tag through its name (\<open>b_tag_name\<close>).\<close>

record db =
  tbl_text :: "text_row list"
  tbl_revision :: "revision_row list"
  tbl_archive :: "archive_row list"
  tbl_tagged_revision :: "(int \<times> string) list"
  tbl_tagged_archived_revision :: "(int \<times> string) list"
  tbl_page :: "page_row list"

definition fresh_db :: db where
  "fresh_db = \<lparr>tbl_text = [], tbl_revision = [], tbl_archive = [],
     tbl_tagged_revision = [], tbl_tagged_archived_revision = [], tbl_page = []\<rparr>"

datatype db_error = IntegrityError

text \<open>\<^verbatim>\<open>insert ... on conflict (key) do update set ...\<close>: a row with the key of the
  proposed row is rewritten by \<open>on_conflict\<close>, otherwise the proposed row is added.\<close>

definition upsert :: "('r \<Rightarrow> int) \<Rightarrow> ('r \<Rightarrow> 'r \<Rightarrow> 'r) \<Rightarrow> 'r \<Rightarrow> 'r list \<Rightarrow> 'r list" where
  "upsert key on_conflict excluded rows =
     (if \<exists>r \<in> set rows. key r = key excluded
      then map (\<lambda>r. if key r = key excluded then on_conflict r excluded else r) rows
      else rows @ [excluded])"

text \<open>\<^verbatim>\<open>insert ... on conflict do nothing\<close> of a tag link.\<close>

definition insert_ignore :: "int \<times> string \<Rightarrow> (int \<times> string) list \<Rightarrow> (int \<times> string) list" where
  "insert_ignore x rows = (if x \<in> set rows then rows else rows @ [x])"

text \<open>The column list of the statement \<^verbatim>\<open>("move", "revision")\<close>: an archived row as a row
  of \<open>revision\<close>.\<close>

definition archive_to_revision :: "archive_row \<Rightarrow> revision_row" where
  "archive_to_revision a =
     \<lparr>rev_id = ar_rev_id a, rev_page = ar_page_id a, rev_text_id = ar_text_id a,
      rev_comment = ar_comment a, rev_user = ar_user a, rev_user_text = ar_user_text a,
      rev_timestamp = ar_timestamp a, rev_minor_edit = ar_minor_edit a,
      rev_deleted = ar_deleted a, rev_len = ar_len a, rev_parent_id = ar_parent_id a,
      rev_sha1 = ar_sha1 a, rev_content_model = ar_content_model a,
      rev_content_format = ar_content_format a\<rparr>"

text \<open>The scalar subquery of \<^verbatim>\<open>("merge", "revision")\<close>: the ID of the page with the
  namespace and title, null when there is none.\<close>

definition lookup_page :: "page_row list \<Rightarrow> int \<Rightarrow> string \<Rightarrow> int option" where
  "lookup_page ps ns t =
     (case filter (\<lambda>p. page_namespace p = ns \<and> page_title p = t) ps of
        [] \<Rightarrow> None
      | p # _ \<Rightarrow> Some (page_id p))"

text \<open>
  One statement on the replica. The two moves are plain inserts of the rows that their
  \<^verbatim>\<open>delete ... returning\<close> removed, so they fail on a key that the target already has.
  In \<open>UpdateArchivePageId\<close> the comparison of \<open>ar_title\<close> is with the tuple \<open>b_title\<close>:
  a row matches when the tuple has its title as the only component.
\<close>

fun apply_op :: "op \<Rightarrow> db \<Rightarrow> db_error + db" where
  "apply_op (InsertText t) d =
     Inr (d\<lparr>tbl_text :=
       upsert old_id (\<lambda>r x. r\<lparr>old_text := old_text x, old_flags := old_flags x\<rparr>) t (tbl_text d)\<rparr>)"
| "apply_op (InsertRevision r) d =
     Inr (d\<lparr>tbl_revision :=
       upsert rev_id (\<lambda>r x. r\<lparr>rev_text_id := rev_text_id x\<rparr>) r (tbl_revision d)\<rparr>)"
| "apply_op (InsertArchive a) d =
     Inr (d\<lparr>tbl_archive :=
       upsert ar_rev_id (\<lambda>r x. r\<lparr>ar_text_id := ar_text_id x\<rparr>) a (tbl_archive d)\<rparr>)"
| "apply_op (InsertTaggedRevision r t) d =
     Inr (d\<lparr>tbl_tagged_revision := insert_ignore (r, t) (tbl_tagged_revision d)\<rparr>)"
| "apply_op (InsertTaggedArchivedRevision r t) d =
     Inr (d\<lparr>tbl_tagged_archived_revision :=
       insert_ignore (r, t) (tbl_tagged_archived_revision d)\<rparr>)"
| "apply_op (DeleteTaggedRevision r t) d =
     Inr (d\<lparr>tbl_tagged_revision := filter (\<lambda>x. x \<noteq> (r, t)) (tbl_tagged_revision d)\<rparr>)"
| "apply_op (DeleteTaggedArchivedRevision r t) d =
     Inr (d\<lparr>tbl_tagged_archived_revision :=
       filter (\<lambda>x. x \<noteq> (r, t)) (tbl_tagged_archived_revision d)\<rparr>)"
| "apply_op (UpdateArchivePageId ns b_title pid) d =
     Inr (d\<lparr>tbl_archive :=
       map (\<lambda>a. if ar_namespace a = ns \<and> [ar_title a] = b_title
                then a\<lparr>ar_page_id := Some pid\<rparr> else a) (tbl_archive d)\<rparr>)"
| "apply_op (MergeRevision src dest_ns dest_title mergepoint) d =
     Inr (d\<lparr>tbl_revision :=
       map (\<lambda>r. if rev_page r = Some src \<and> rev_timestamp r \<le> mergepoint
                then r\<lparr>rev_page := lookup_page (tbl_page d) dest_ns dest_title\<rparr> else r)
           (tbl_revision d)\<rparr>)"
| "apply_op (UpdateRevDeleted rid bitmask) d =
     Inr (d\<lparr>tbl_revision :=
       map (\<lambda>r. if rev_id r = rid then r\<lparr>rev_deleted := bitmask\<rparr> else r) (tbl_revision d)\<rparr>)"
| "apply_op (UpdateArDeleted rid bitmask) d =
     Inr (d\<lparr>tbl_archive :=
       map (\<lambda>a. if ar_rev_id a = rid then a\<lparr>ar_deleted := bitmask\<rparr> else a) (tbl_archive d)\<rparr>)"
| "apply_op (MoveRevision pid) d =
     (let deleted_revision = filter (\<lambda>a. ar_page_id a = Some pid) (tbl_archive d);
          rows = map archive_to_revision deleted_revision
      in if (\<exists>r \<in> set rows. rev_id r \<in> rev_id ` set (tbl_revision d))
            \<or> \<not> distinct (map rev_id rows)
         then Inl IntegrityError
         else Inr (d\<lparr>tbl_archive := filter (\<lambda>a. ar_page_id a \<noteq> Some pid) (tbl_archive d),
                     tbl_revision := tbl_revision d @ rows\<rparr>))"
| "apply_op (MoveTaggedArchivedRevision pid) d =
     (let ids = map ar_rev_id (filter (\<lambda>a. ar_page_id a = Some pid) (tbl_archive d));
          rows = filter (\<lambda>x. fst x \<in> set ids) (tbl_tagged_archived_revision d)
      in if (\<exists>x \<in> set rows. x \<in> set (tbl_tagged_revision d)) \<or> \<not> distinct rows
         then Inl IntegrityError
         else Inr (d\<lparr>tbl_tagged_archived_revision :=
                       filter (\<lambda>x. fst x \<notin> set ids) (tbl_tagged_archived_revision d),
                     tbl_tagged_revision := tbl_tagged_revision d @ rows\<rparr>))"


subsection \<open>The net effect of tag changes, as the specification words it\<close>

text \<open>
  For one revision and one tag, the state of the tag within the window: an add cancels a
  pending remove, a remove cancels a pending add, and otherwise the change becomes
  pending. \<open>net_effect\<close> runs the raw log events of the window through this.
\<close>

datatype pending = NoChange | PendingAdd | PendingRemove

definition spec_add :: "pending \<Rightarrow> pending" where
  "spec_add p = (if p = PendingRemove then NoChange else PendingAdd)"

definition spec_remove :: "pending \<Rightarrow> pending" where
  "spec_remove p = (if p = PendingAdd then NoChange else PendingRemove)"

definition net_step :: "int \<Rightarrow> string \<Rightarrow> logevent \<Rightarrow> pending \<Rightarrow> pending" where
  "net_step r t le p =
     (if le_type le = ''tag'' \<and> le_action le = ''update'' then
        (case le_params le of
           ParamsTag (Some r') tagsAdded tagsRemoved \<Rightarrow>
             if r' = r then
               (if t \<in> set tagsAdded then spec_add p
                else if t \<in> set tagsRemoved then spec_remove p
                else p)
             else p
         | _ \<Rightarrow> p)
      else p)"

definition net_effect :: "logevent list \<Rightarrow> int \<Rightarrow> string \<Rightarrow> pending" where
  "net_effect log r t = fold (net_step r t) log NoChange"

text \<open>A log event that changes the tags of a revision.\<close>

definition tag_event :: "string \<Rightarrow> int \<Rightarrow> int \<Rightarrow> string list \<Rightarrow> string list \<Rightarrow> logevent" where
  "tag_event title logpage r tagsAdded tagsRemoved =
     \<lparr>le_type = ''tag'', le_action = ''update'', le_title = title, le_logpage = logpage,
      le_params = ParamsTag (Some r) tagsAdded tagsRemoved\<rparr>"

text \<open>The revision that a yielded statement on a tag link is for.\<close>

fun tag_op_rev :: "op \<Rightarrow> int option" where
  "tag_op_rev (InsertTaggedRevision r t) = Some r"
| "tag_op_rev (InsertTaggedArchivedRevision r t) = Some r"
| "tag_op_rev (DeleteTaggedRevision r t) = Some r"
| "tag_op_rev (DeleteTaggedArchivedRevision r t) = Some r"
| "tag_op_rev _ = None"

subsection \<open>Predicates and functions used in the statements\<close>

text \<open>The two sets of rule 1 share no page.\<close>

definition pages_disjoint :: "lstate \<Rightarrow> bool" where
  "pages_disjoint st \<longleftrightarrow> set (deleted_pages st) \<inter> set (map fst (undeleted_pages st)) = {}"

text \<open>The log event is a delete or a restore of the page with the title.\<close>

definition touches :: "string \<Rightarrow> logevent \<Rightarrow> bool" where
  "touches p le \<longleftrightarrow> le_type le = ''delete'' \<and> le_title le = p
      \<and> (le_action le = ''delete'' \<or> le_action le = ''restore'')"

text \<open>The three statements yielded for one entry of \<open>undeleted_pages\<close>, a title and
  the page ID of the restore.\<close>

definition restore_ops :: "env \<Rightarrow> string \<times> int \<Rightarrow> op list" where
  "restore_ops e tp =
     [UpdateArchivePageId (title_namespacenumber e (fst tp))
        [title_dbtitle e (fst tp) (title_namespacenumber e (fst tp))] (snd tp),
      MoveTaggedArchivedRevision (snd tp),
      MoveRevision (snd tp)]"

text \<open>\<open>d'\<close> is \<open>d\<close> with the page ID set on every archived row of the namespace and
  title, whatever page ID the row had, and nothing else changed.\<close>

definition sets_archive_page_id :: "int \<Rightarrow> string \<Rightarrow> int \<Rightarrow> db \<Rightarrow> db \<Rightarrow> bool" where
  "sets_archive_page_id ns t pid d d' \<longleftrightarrow>
     length (tbl_archive d') = length (tbl_archive d)
     \<and> (\<forall>i < length (tbl_archive d).
          tbl_archive d' ! i =
            (if ar_namespace (tbl_archive d ! i) = ns \<and> ar_title (tbl_archive d ! i) = t
             then (tbl_archive d ! i)\<lparr>ar_page_id := Some pid\<rparr> else tbl_archive d ! i))
     \<and> d'\<lparr>tbl_archive := tbl_archive d\<rparr> = d"

text \<open>\<open>d'\<close> is \<open>d\<close> with the tag links of the archived revisions of the page taken out
  of the archived tag relation and put into the live one, and nothing else changed.\<close>

definition moves_tag_links :: "int \<Rightarrow> db \<Rightarrow> db \<Rightarrow> bool" where
  "moves_tag_links pid d d' \<longleftrightarrow>
     set (tbl_tagged_revision d') = set (tbl_tagged_revision d)
          \<union> {x \<in> set (tbl_tagged_archived_revision d).
                \<exists>a \<in> set (tbl_archive d). ar_page_id a = Some pid \<and> fst x = ar_rev_id a}
     \<and> set (tbl_tagged_archived_revision d') = set (tbl_tagged_archived_revision d)
          - {x. \<exists>a \<in> set (tbl_archive d). ar_page_id a = Some pid \<and> fst x = ar_rev_id a}
     \<and> d'\<lparr>tbl_tagged_archived_revision := tbl_tagged_archived_revision d,
            tbl_tagged_revision := tbl_tagged_revision d\<rparr> = d"

text \<open>\<open>d'\<close> is \<open>d\<close> with the archived rows of the page taken out of \<open>archive\<close> and
  put into \<open>revision\<close>, and nothing else changed.\<close>

definition moves_revisions :: "int \<Rightarrow> db \<Rightarrow> db \<Rightarrow> bool" where
  "moves_revisions pid d d' \<longleftrightarrow>
     set (tbl_archive d') = {a \<in> set (tbl_archive d). ar_page_id a \<noteq> Some pid}
     \<and> set (tbl_revision d') = set (tbl_revision d)
          \<union> archive_to_revision ` {a \<in> set (tbl_archive d). ar_page_id a = Some pid}
     \<and> d'\<lparr>tbl_archive := tbl_archive d, tbl_revision := tbl_revision d\<rparr> = d"

text \<open>The blob ID of a yielded statement, when it is an upsert of a blob, and the blob
  IDs of the statements of a list, in order.\<close>

fun op_text_id :: "op \<Rightarrow> int option" where
  "op_text_id (InsertText t) = Some (old_id t)"
| "op_text_id _ = None"

definition text_ids :: "op list \<Rightarrow> int list" where
  "text_ids xs = List.map_filter op_text_id xs"

text \<open>The state of the allocator in a generator that was seeded with \<open>seed\<close>: the IDs
  returned so far are the numbers after the seed up to the current value, in order,
  and every blob written has one of them.\<close>

definition alloc_inv :: "int \<Rightarrow> gen \<Rightarrow> bool" where
  "alloc_inv seed g \<longleftrightarrow>
     seed \<le> text_id_value g \<and> allocated g = [seed + 1 .. text_id_value g]
     \<and> set (text_ids (yielded g)) \<subseteq> set (allocated g)"

text \<open>What \<open>added_tags\<close> and \<open>removed_tags\<close> hold about a revision and a tag, and the
  invariant of the loop that no tag of a revision is in both.\<close>

definition pending_of ::
  "(int \<times> string list) list \<times> (int \<times> string list) list \<Rightarrow> int \<Rightarrow> string \<Rightarrow> pending" where
  "pending_of ar r t =
     (if t \<in> set (tags_get (fst ar) r) then PendingAdd
      else if t \<in> set (tags_get (snd ar) r) then PendingRemove
      else NoChange)"

definition tags_disjoint :: "(int \<times> string list) list \<times> (int \<times> string list) list \<Rightarrow> bool" where
  "tags_disjoint ar \<longleftrightarrow>
     (\<forall>r. set (tags_get (fst ar) r) \<inter> set (tags_get (snd ar) r) = {})
     \<and> distinct (map fst (fst ar)) \<and> distinct (map fst (snd ar))"

text \<open>The statements that the two loops under \<^verbatim>\<open># update tags\<close> yield for the tag sets
  of a state.\<close>

definition added_tag_ops :: "env \<Rightarrow> int \<times> string list \<Rightarrow> op list" where
  "added_tag_ops e ra = map (add_tag_op e (fst ra)) (snd ra)"

definition removed_tag_ops :: "int \<times> string list \<Rightarrow> op list" where
  "removed_tag_ops rr =
     concat (map (\<lambda>t. [DeleteTaggedRevision (fst rr) t, DeleteTaggedArchivedRevision (fst rr) t])
               (snd rr))"

definition tag_ops :: "env \<Rightarrow> lstate \<Rightarrow> op list" where
  "tag_ops e st = concat (map (added_tag_ops e) (added_tags st))
                  @ concat (map removed_tag_ops (removed_tags st))"

subsection \<open>Concrete runs\<close>

text \<open>A run in which the remote source and the log have nothing: the other runs below
  change it where they differ. One chunk holds all the titles or IDs.\<close>

definition no_result :: api_result where
  "no_result = \<lparr>drvcontinue = False, rvcontinue = False, pages = []\<rparr>"

definition env0 :: env where
  "env0 = \<lparr>with_content = False, text_old_ids = [],
     list_allrevisions = (\<lambda>start. []), list_alldeletedrevisions = [],
     logevents_list = (\<lambda>start. []),
     call_api_deleted = (\<lambda>chunk start. no_result),
     call_api_imported = (\<lambda>chunk. no_result),
     iter_chunks_titles = (\<lambda>xs. if xs = [] then [] else [xs]),
     iter_chunks_ids = (\<lambda>xs. if xs = [] then [] else [xs]),
     title_namespacenumber = (\<lambda>t. 0),
     title_dbtitle = (\<lambda>t ns. t),
     value_or_none = (\<lambda>v. if v = Some 0 then None else v),
     revision_exists = (\<lambda>r. False)\<rparr>"

text \<open>Revision 5 with the tag \<open>t\<close>, and the page \<open>A\<close> (ID 9) that has it as a deleted
  revision.\<close>

definition rev5 :: api_rev where
  "rev5 = \<lparr>revid = 5, rv_comment = ''c'', rv_userid = 1, rv_user = ''u'',
     rv_timestamp = 10, rv_minor = False, rv_size = 3, rv_parentid = None,
     rv_sha1 = ''s'', rv_contentmodel = ''wikitext'', rv_contentformat = None,
     rv_tags = Some [''t''], rv_content = Some ''abc''\<rparr>"

definition page_A :: api_page where
  "page_A = \<lparr>pageid = Some 9, pg_title = ''A'', pg_ns = 0, revisions = None,
     deletedrevisions = Some [rev5]\<rparr>"

definition ar5 :: archive_row where
  "ar5 = \<lparr>ar_namespace = 0, ar_title = ''A'', ar_rev_id = 5, ar_page_id = None,
     ar_text_id = None, ar_comment = ''c'', ar_user = 1, ar_user_text = ''u'',
     ar_timestamp = 10, ar_minor_edit = False, ar_deleted = 0, ar_len = 3,
     ar_parent_id = None, ar_sha1 = ''s'', ar_content_model = ''wikitext'',
     ar_content_format = None\<rparr>"

definition log_event :: "string \<Rightarrow> string \<Rightarrow> string \<Rightarrow> int \<Rightarrow> le_params \<Rightarrow> logevent" where
  "log_event ty action title logpage ps =
     \<lparr>le_type = ty, le_action = action, le_title = title, le_logpage = logpage,
      le_params = ps\<rparr>"

text \<open>A window whose log has a delete of page \<open>A\<close> and then its restore.\<close>

definition log_delete_restore :: "logevent list" where
  "log_delete_restore =
     [log_event ''delete'' ''delete'' ''A'' 9 ParamsOther,
      log_event ''delete'' ''restore'' ''A'' 9 ParamsOther]"

text \<open>A window whose log has the restore of page \<open>A\<close> first and then its delete.\<close>

definition log_restore_delete :: "logevent list" where
  "log_restore_delete =
     [log_event ''delete'' ''restore'' ''A'' 9 ParamsOther,
      log_event ''delete'' ''delete'' ''A'' 9 ParamsOther]"

text \<open>A tag change of a log entry: its parameters have no revision ID.\<close>

definition le_tag_no_revid :: logevent where
  "le_tag_no_revid = log_event ''tag'' ''update'' ''A'' 9 (ParamsTag None [''t''] [])"

text \<open>An archived row of page \<open>A\<close> whose page ID is known to be 7, and the window in
  which page \<open>A\<close> is restored with the page ID 9.\<close>

definition ar6 :: archive_row where
  "ar6 = ar5\<lparr>ar_rev_id := 6, ar_page_id := Some 7\<rparr>"

definition env_restore :: env where
  "env_restore = env0\<lparr>logevents_list := \<lambda>start. log_delete_restore\<rparr>"

text \<open>A replica that has revision 5 in both relations, without content, and the rows
  that a later run proposes for it: they have a content reference and another comment.\<close>

definition db_rev5 :: db where
  "db_rev5 = fresh_db\<lparr>tbl_revision := [archive_to_revision ar5], tbl_archive := [ar5]\<rparr>"

definition rev5_again :: revision_row where
  "rev5_again = (archive_to_revision ar5)\<lparr>rev_text_id := Some 1, rev_comment := ''d''\<rparr>"

definition ar5_again :: archive_row where
  "ar5_again = ar5\<lparr>ar_text_id := Some 1, ar_comment := ''d''\<rparr>"

text \<open>A window whose log has a merge of the page with the ID \<open>p\<close> and a move of the
  same page.\<close>

definition env_merge_move :: "int \<Rightarrow> env" where
  "env_merge_move p = env0\<lparr>logevents_list := \<lambda>start.
     [log_event ''merge'' ''merge'' ''A'' p (ParamsMerge 0 ''B'' 20),
      log_event ''move'' ''move'' ''A'' p ParamsOther]\<rparr>"

text \<open>A window in which page \<open>A\<close> is deleted and the tag \<open>t\<close> is added to its
  revision 5, which was created in the window: the query for the deleted revisions of
  \<open>A\<close> returns it, with the tag.\<close>

definition env_deleted_tagged :: env where
  "env_deleted_tagged = env0\<lparr>
     logevents_list := \<lambda>start.
       [log_event ''delete'' ''delete'' ''A'' 9 ParamsOther, tag_event ''A'' 9 5 [''t''] []],
     call_api_deleted := \<lambda>chunk start. no_result\<lparr>pages := [page_A]\<rparr>\<rparr>"

text \<open>The same window, but the result of the query has the key \<^verbatim>\<open>drvcontinue\<close>.\<close>

definition env_deleted_continue :: env where
  "env_deleted_continue = env_deleted_tagged\<lparr>
     call_api_deleted := \<lambda>chunk start. no_result\<lparr>pages := [page_A], drvcontinue := True\<rparr>\<rparr>"

text \<open>A window in which page 9 is imported and the result of the query for its
  revisions has the key \<^verbatim>\<open>rvcontinue\<close>.\<close>

definition env_imported_continue :: env where
  "env_imported_continue = env0\<lparr>
     logevents_list := \<lambda>start. [log_event ''import'' ''upload'' ''A'' 9 ParamsOther],
     call_api_imported := \<lambda>chunk. no_result\<lparr>pages := [page_A], rvcontinue := True\<rparr>\<rparr>"

text \<open>A run with content in which the relation \<open>text\<close> has the blobs 3 and 7 and the
  live feed returns a page with revision 5 twice.\<close>

definition env_content :: env where
  "env_content = env0\<lparr>with_content := True, text_old_ids := [3, 7],
     list_allrevisions := \<lambda>start.
       [\<lparr>pageid = Some 9, pg_title = ''A'', pg_ns = 0, revisions = Some [rev5, rev5],
         deletedrevisions = None\<rparr>]\<rparr>"



text \<open>The log of the scenario: tag \<open>T1\<close> added to revision \<open>R\<close>, removed again, and tag
  \<open>T2\<close> added.\<close>

definition log_add_remove_add :: "int \<Rightarrow> string \<Rightarrow> string \<Rightarrow> logevent list" where
  "log_add_remove_add r t1 t2 =
     [tag_event ''A'' 9 r [t1] [], tag_event ''A'' 9 r [] [t1], tag_event ''A'' 9 r [t2] []]"

section \<open>Properties\<close>

subsection \<open>Generators that only yield, and concrete runs\<close>

lemma for_each_yield_only:
  assumes "\<And>x g. raised g = None \<Longrightarrow> body x g = yields (f x) g"
  shows "raised g = None \<Longrightarrow> for_each body xs g = yields (concat (map f xs)) g"
proof (induction xs arbitrary: g)
  case Nil then show ?case by (simp add: yields_def)
next
  case (Cons x xs)
  have r: "raised (yields (f x) g) = None" using Cons.prems by (simp add: yields_def)
  show ?case using Cons.IH[OF r] Cons.prems
    by (simp add: assms r) (simp add: yields_def)
qed

lemma undelete_body_yields: "undelete_body e tp g = yields (restore_ops e tp) g"
  by (cases tp) (simp add: undelete_body_def restore_ops_def yields_def yield_def Let_def)

lemmas run_simps = gen_update_def and_then_def new_gen_def get_text_id_gen_def sql_max_def
  env0_def no_result_def log_event_def tag_event_def logevent_step_def tag_update_def
  tag_added_def tag_removed_def tags_get_def init_lstate_def set_add_def after_log_def
  undelete_body_def deleted_chunk_body_def deleted_page_body_def gen_deletedrevisions_def
  gen_deletedrevisions_body_def imported_chunk_body_def imported_page_body_def
  gen_revisions_def gen_revisions_body_def merge_body_def bitmask_body_def
  gen_tag_updates_def added_tags_body_def removed_tags_body_def add_tag_op_def
  add_new_revids_def tags_of_def yield_def yields_def raise_def Let_def arv_body_def
  gen_text_def next_text_id_def

subsection \<open>The loop over the log events\<close>

lemma log_loop_append:
  "log_loop nrv ndrv (l1 @ l2) st =
     (case log_loop nrv ndrv l1 st of Inl err \<Rightarrow> Inl err | Inr st' \<Rightarrow> log_loop nrv ndrv l2 st')"
  by (induction l1 arbitrary: st) (auto split: sum.splits)

lemma tag_update_pages:
  "tag_update nrv ndrv ps st = Inr st' \<Longrightarrow>
     deleted_pages st' = deleted_pages st \<and> undeleted_pages st' = undeleted_pages st"
  by (auto simp: tag_update_def Let_def split: le_params.splits option.splits if_splits prod.splits)

lemma step_disjoint:
  assumes "logevent_step nrv ndrv le st = Inr st'" and "pages_disjoint st"
  shows "pages_disjoint st'"
  using assms
  by (auto simp: logevent_step_def pages_disjoint_def set_add_def AList.update_keys
        AList.delete_keys simp del: set_map
        dest!: tag_update_pages split: if_splits le_params.splits)

lemma loop_disjoint:
  "log_loop nrv ndrv log st = Inr st' \<Longrightarrow> pages_disjoint st \<Longrightarrow> pages_disjoint st'"
  by (induction log arbitrary: st) (auto split: sum.splits dest: step_disjoint)

lemma step_untouched:
  assumes "logevent_step nrv ndrv le st = Inr st'" and "\<not> touches p le"
  shows "(p \<in> set (deleted_pages st') \<longleftrightarrow> p \<in> set (deleted_pages st))
       \<and> map_of (undeleted_pages st') p = map_of (undeleted_pages st) p"
  using assms
  by (auto simp: logevent_step_def touches_def set_add_def AList.update_conv' AList.delete_conv'
        dest!: tag_update_pages split: if_splits le_params.splits)

lemma loop_untouched:
  "log_loop nrv ndrv log st = Inr st' \<Longrightarrow> \<forall>le \<in> set log. \<not> touches p le \<Longrightarrow>
   (p \<in> set (deleted_pages st') \<longleftrightarrow> p \<in> set (deleted_pages st))
       \<and> map_of (undeleted_pages st') p = map_of (undeleted_pages st) p"
proof (induction log arbitrary: st)
  case Nil then show ?case by simp
next
  case (Cons le log)
  from Cons.prems obtain st1 where s: "logevent_step nrv ndrv le st = Inr st1"
    and l: "log_loop nrv ndrv log st1 = Inr st'" by (auto split: sum.splits)
  from Cons.prems have "\<not> touches p le" and "\<forall>le \<in> set log. \<not> touches p le" by auto
  with step_untouched[OF s] Cons.IH[OF l] show ?case by simp
qed

lemma step_delete:
  assumes "le_type le = ''delete''" "le_action le = ''delete''"
  shows "logevent_step nrv ndrv le st =
      Inr (st\<lparr>deleted_pages := set_add (le_title le) (deleted_pages st),
              undeleted_pages := AList.delete (le_title le) (undeleted_pages st)\<rparr>)"
  using assms by (simp add: logevent_step_def)

lemma step_restore:
  assumes "le_type le = ''delete''" "le_action le = ''restore''"
  shows "logevent_step nrv ndrv le st =
      Inr (st\<lparr>undeleted_pages := AList.update (le_title le) (le_logpage le) (undeleted_pages st),
              deleted_pages := removeAll (le_title le) (deleted_pages st)\<rparr>)"
  using assms by (simp add: logevent_step_def)

lemma tag_update_undeleted:
  "tag_update nrv ndrv ps st = Inr st' \<Longrightarrow> undeleted_pages st' = undeleted_pages st"
  by (auto simp: tag_update_def Let_def split: le_params.splits option.splits if_splits prod.splits)

lemma step_distinct_undeleted:
  assumes "logevent_step nrv ndrv le st = Inr st'" and "distinct (map fst (undeleted_pages st))"
  shows "distinct (map fst (undeleted_pages st'))"
  using assms
  by (auto simp: logevent_step_def AList.distinct_update AList.distinct_delete
        dest!: tag_update_undeleted split: if_splits le_params.splits)

lemma loop_distinct_undeleted:
  "log_loop nrv ndrv log st = Inr st' \<Longrightarrow> distinct (map fst (undeleted_pages st))
     \<Longrightarrow> distinct (map fst (undeleted_pages st'))"
  by (induction log arbitrary: st) (auto split: sum.splits dest: step_distinct_undeleted)

lemma filter_key_Some:
  "distinct (map fst al) \<Longrightarrow> map_of al k = Some v \<Longrightarrow> filter (\<lambda>tp. fst tp = k) al = [(k, v)]"
proof (induction al)
  case Nil then show ?case by simp
next
  case (Cons p al)
  show ?case
  proof (cases "fst p = k")
    case True
    with Cons.prems have "p = (k, v)" and "k \<notin> fst ` set al" by (cases p; auto)+
    then have "filter (\<lambda>tp. fst tp = k) al = []" by (auto simp: filter_empty_conv)
    with \<open>p = (k, v)\<close> show ?thesis by simp
  next
    case False
    with Cons show ?thesis by (cases p) auto
  qed
qed

lemma filter_key_None: "map_of al k = None \<Longrightarrow> filter (\<lambda>tp. fst tp = k) al = []"
  by (auto simp: filter_empty_conv map_of_eq_None_iff)

lemma after_log_restore_first:
  assumes "raised g = None"
  shows "after_log e since st g =
     and_then (for_each (deleted_chunk_body e since) (iter_chunks_titles e (deleted_pages st)))
    (and_then (for_each (imported_chunk_body e) (iter_chunks_ids e (imported_pages st)))
    (and_then (for_each (merge_body (moved_pages st)) (merged_pages st))
    (and_then (for_each bitmask_body (deleted_revisions st)) (gen_tag_updates e st))))
      (yields (concat (map (restore_ops e) (undeleted_pages st))) g)"
proof -
  have u: "for_each (undelete_body e) (undeleted_pages st) g
      = yields (concat (map (restore_ops e) (undeleted_pages st))) g"
    using undelete_body_yields assms by (rule for_each_yield_only)
  have r: "raised (yields (concat (map (restore_ops e) (undeleted_pages st))) g) = None"
    using assms by (simp add: yields_def)
  show ?thesis
    unfolding after_log_def and_then_def[of "for_each (undelete_body e) (undeleted_pages st)"]
    by (simp add: u r)
qed

lemma gen_update_after_log:
  assumes "raised (for_each (arv_body e) (list_allrevisions e (Some since)) (new_gen e)) = None"
    and "log_loop (new_revids (for_each (arv_body e) (list_allrevisions e (Some since)) (new_gen e)))
           [] (logevents_list e since) init_lstate = Inr st"
  shows "gen_update e since
     = after_log e since st (for_each (arv_body e) (list_allrevisions e (Some since)) (new_gen e))"
  using assms by (simp add: gen_update_def and_then_def)

text \<open>
  Claim C5. After the loop over any log (so after any prefix of the log of the window)
  no page is both in \<open>deleted_pages\<close> and a key of \<open>undeleted_pages\<close>. A restore
  that no later delete or restore of the same page follows leaves the page restored and
  not deleted, whatever came before it, an earlier delete included, and
  \<open>undeleted_pages\<close> has one entry for it; a delete that none follows leaves it deleted
  and without an entry in \<open>undeleted_pages\<close>. What the run yields after the log starts
  with the three restore statements of each entry of \<open>undeleted_pages\<close> and of nothing
  else, and the deleted revisions are then asked for the titles of \<open>deleted_pages\<close>
  only: a page that was deleted and then restored gets its restore statements once, and
  nothing is done for its delete.
\<close>

theorem delete_restore_collapse:
  assumes "log_loop nrv ndrv log init_lstate = Inr st"
  shows "set (deleted_pages st) \<inter> fst ` set (undeleted_pages st) = {}
     \<and> (\<forall>l1 le l2. log = l1 @ le # l2 \<and> le_type le = ''delete'' \<and> le_action le = ''restore''
            \<and> (\<forall>x \<in> set l2. \<not> touches (le_title le) x)
          \<longrightarrow> le_title le \<notin> set (deleted_pages st)
              \<and> map_of (undeleted_pages st) (le_title le) = Some (le_logpage le)
              \<and> filter (\<lambda>tp. fst tp = le_title le) (undeleted_pages st)
                  = [(le_title le, le_logpage le)])
     \<and> (\<forall>l1 le l2. log = l1 @ le # l2 \<and> le_type le = ''delete'' \<and> le_action le = ''delete''
            \<and> (\<forall>x \<in> set l2. \<not> touches (le_title le) x)
          \<longrightarrow> le_title le \<in> set (deleted_pages st)
              \<and> map_of (undeleted_pages st) (le_title le) = None
              \<and> filter (\<lambda>tp. fst tp = le_title le) (undeleted_pages st) = [])
     \<and> (\<forall>g. raised g = None \<longrightarrow>
          after_log e since st g =
            and_then (for_each (deleted_chunk_body e since)
                        (iter_chunks_titles e (deleted_pages st)))
           (and_then (for_each (imported_chunk_body e) (iter_chunks_ids e (imported_pages st)))
           (and_then (for_each (merge_body (moved_pages st)) (merged_pages st))
           (and_then (for_each bitmask_body (deleted_revisions st)) (gen_tag_updates e st))))
             (yields (concat (map (restore_ops e) (undeleted_pages st))) g))
     \<and> (nrv = new_revids (for_each (arv_body e) (list_allrevisions e (Some since)) (new_gen e))
          \<and> ndrv = [] \<and> log = logevents_list e since
          \<and> raised (for_each (arv_body e) (list_allrevisions e (Some since)) (new_gen e)) = None
        \<longrightarrow> gen_update e since =
            and_then (for_each (deleted_chunk_body e since)
                        (iter_chunks_titles e (deleted_pages st)))
           (and_then (for_each (imported_chunk_body e) (iter_chunks_ids e (imported_pages st)))
           (and_then (for_each (merge_body (moved_pages st)) (merged_pages st))
           (and_then (for_each bitmask_body (deleted_revisions st)) (gen_tag_updates e st))))
             (yields (concat (map (restore_ops e) (undeleted_pages st)))
                (for_each (arv_body e) (list_allrevisions e (Some since)) (new_gen e))))"
proof -
  have "pages_disjoint init_lstate" by (simp add: pages_disjoint_def init_lstate_def)
  with assms have "pages_disjoint st" by (rule loop_disjoint)
  then have A: "set (deleted_pages st) \<inter> fst ` set (undeleted_pages st) = {}"
    by (simp add: pages_disjoint_def)
  have "distinct (map fst (undeleted_pages init_lstate))" by (simp add: init_lstate_def)
  with assms have dk: "distinct (map fst (undeleted_pages st))" by (rule loop_distinct_undeleted)
  have B: "\<forall>l1 le l2. log = l1 @ le # l2 \<and> le_type le = ''delete'' \<and> le_action le = ''restore''
            \<and> (\<forall>x \<in> set l2. \<not> touches (le_title le) x)
          \<longrightarrow> le_title le \<notin> set (deleted_pages st)
              \<and> map_of (undeleted_pages st) (le_title le) = Some (le_logpage le)
              \<and> filter (\<lambda>tp. fst tp = le_title le) (undeleted_pages st)
                  = [(le_title le, le_logpage le)]"
  proof (intro allI impI)
    fix l1 le l2
    assume h: "log = l1 @ le # l2 \<and> le_type le = ''delete'' \<and> le_action le = ''restore''
            \<and> (\<forall>x \<in> set l2. \<not> touches (le_title le) x)"
    with assms obtain s1 s2 where a: "log_loop nrv ndrv l1 init_lstate = Inr s1"
       and b: "logevent_step nrv ndrv le s1 = Inr s2" and c: "log_loop nrv ndrv l2 s2 = Inr st"
      by (auto simp: log_loop_append split: sum.splits)
    from h b have s2: "s2 = s1\<lparr>undeleted_pages :=
                AList.update (le_title le) (le_logpage le) (undeleted_pages s1),
              deleted_pages := removeAll (le_title le) (deleted_pages s1)\<rparr>"
      by (simp add: step_restore)
    from loop_untouched[OF c] h
    have "(le_title le \<in> set (deleted_pages st) \<longleftrightarrow> le_title le \<in> set (deleted_pages s2))
       \<and> map_of (undeleted_pages st) (le_title le) = map_of (undeleted_pages s2) (le_title le)"
      by blast
    then have n: "le_title le \<notin> set (deleted_pages st)"
      and m: "map_of (undeleted_pages st) (le_title le) = Some (le_logpage le)"
      by (simp_all add: s2 AList.update_conv')
    from n m filter_key_Some[OF dk m]
    show "le_title le \<notin> set (deleted_pages st)
              \<and> map_of (undeleted_pages st) (le_title le) = Some (le_logpage le)
              \<and> filter (\<lambda>tp. fst tp = le_title le) (undeleted_pages st)
                  = [(le_title le, le_logpage le)]"
      by (intro conjI)
  qed
  have C: "\<forall>l1 le l2. log = l1 @ le # l2 \<and> le_type le = ''delete'' \<and> le_action le = ''delete''
            \<and> (\<forall>x \<in> set l2. \<not> touches (le_title le) x)
          \<longrightarrow> le_title le \<in> set (deleted_pages st)
              \<and> map_of (undeleted_pages st) (le_title le) = None
              \<and> filter (\<lambda>tp. fst tp = le_title le) (undeleted_pages st) = []"
  proof (intro allI impI)
    fix l1 le l2
    assume h: "log = l1 @ le # l2 \<and> le_type le = ''delete'' \<and> le_action le = ''delete''
            \<and> (\<forall>x \<in> set l2. \<not> touches (le_title le) x)"
    with assms obtain s1 s2 where a: "log_loop nrv ndrv l1 init_lstate = Inr s1"
       and b: "logevent_step nrv ndrv le s1 = Inr s2" and c: "log_loop nrv ndrv l2 s2 = Inr st"
      by (auto simp: log_loop_append split: sum.splits)
    from h b have s2: "s2 = s1\<lparr>deleted_pages := set_add (le_title le) (deleted_pages s1),
              undeleted_pages := AList.delete (le_title le) (undeleted_pages s1)\<rparr>"
      by (simp add: step_delete)
    from loop_untouched[OF c] h
    have "(le_title le \<in> set (deleted_pages st) \<longleftrightarrow> le_title le \<in> set (deleted_pages s2))
       \<and> map_of (undeleted_pages st) (le_title le) = map_of (undeleted_pages s2) (le_title le)"
      by blast
    then have n: "le_title le \<in> set (deleted_pages st)"
      and m: "map_of (undeleted_pages st) (le_title le) = None"
      by (simp_all add: s2 AList.delete_conv' set_add_def)
    from n m filter_key_None[OF m]
    show "le_title le \<in> set (deleted_pages st)
              \<and> map_of (undeleted_pages st) (le_title le) = None
              \<and> filter (\<lambda>tp. fst tp = le_title le) (undeleted_pages st) = []"
      by (intro conjI)
  qed
  have D: "\<forall>g. raised g = None \<longrightarrow>
          after_log e since st g =
            and_then (for_each (deleted_chunk_body e since)
                        (iter_chunks_titles e (deleted_pages st)))
           (and_then (for_each (imported_chunk_body e) (iter_chunks_ids e (imported_pages st)))
           (and_then (for_each (merge_body (moved_pages st)) (merged_pages st))
           (and_then (for_each bitmask_body (deleted_revisions st)) (gen_tag_updates e st))))
             (yields (concat (map (restore_ops e) (undeleted_pages st))) g)"
    by (intro allI impI) (rule after_log_restore_first)
  let ?g1 = "for_each (arv_body e) (list_allrevisions e (Some since)) (new_gen e)"
  have E: "nrv = new_revids ?g1 \<and> ndrv = [] \<and> log = logevents_list e since \<and> raised ?g1 = None
        \<longrightarrow> gen_update e since =
            and_then (for_each (deleted_chunk_body e since)
                        (iter_chunks_titles e (deleted_pages st)))
           (and_then (for_each (imported_chunk_body e) (iter_chunks_ids e (imported_pages st)))
           (and_then (for_each (merge_body (moved_pages st)) (merged_pages st))
           (and_then (for_each bitmask_body (deleted_revisions st)) (gen_tag_updates e st))))
             (yields (concat (map (restore_ops e) (undeleted_pages st))) ?g1)"
  proof
    assume h: "nrv = new_revids ?g1 \<and> ndrv = [] \<and> log = logevents_list e since
        \<and> raised ?g1 = None"
    with assms have l: "log_loop (new_revids ?g1) [] (logevents_list e since) init_lstate = Inr st"
      by simp
    from h have r: "raised ?g1 = None" by simp
    show "gen_update e since =
            and_then (for_each (deleted_chunk_body e since)
                        (iter_chunks_titles e (deleted_pages st)))
           (and_then (for_each (imported_chunk_body e) (iter_chunks_ids e (imported_pages st)))
           (and_then (for_each (merge_body (moved_pages st)) (merged_pages st))
           (and_then (for_each bitmask_body (deleted_revisions st)) (gen_tag_updates e st))))
             (yields (concat (map (restore_ops e) (undeleted_pages st))) ?g1)"
      unfolding gen_update_after_log[OF r l] by (rule after_log_restore_first[OF r])
  qed
  from A B C D E show ?thesis by (intro conjI)
qed

theorem delete_restore_collapse_witness:
  "log_loop [] [] log_delete_restore init_lstate
     = Inr (init_lstate\<lparr>undeleted_pages := [(''A'', 9)]\<rparr>)
   \<and> set (deleted_pages (init_lstate\<lparr>undeleted_pages := [(''A'', 9)]\<rparr>))
       \<inter> fst ` set (undeleted_pages (init_lstate\<lparr>undeleted_pages := [(''A'', 9)]\<rparr>)) = {}
   \<and> ''A'' \<notin> set (deleted_pages (init_lstate\<lparr>undeleted_pages := [(''A'', 9)]\<rparr>))
   \<and> filter (\<lambda>tp. fst tp = ''A'') (undeleted_pages (init_lstate\<lparr>undeleted_pages := [(''A'', 9)]\<rparr>))
       = [(''A'', 9)]
   \<and> after_log env_restore 0 (init_lstate\<lparr>undeleted_pages := [(''A'', 9)]\<rparr>) (new_gen env0)
       = (new_gen env0)\<lparr>yielded :=
           [UpdateArchivePageId 0 [''A''] 9, MoveTaggedArchivedRevision 9, MoveRevision 9]\<rparr>
   \<and> gen_update env_restore 0
       = (new_gen env0)\<lparr>yielded :=
           [UpdateArchivePageId 0 [''A''] 9, MoveTaggedArchivedRevision 9, MoveRevision 9]\<rparr>
   \<and> log_loop [] [] log_restore_delete init_lstate
     = Inr (init_lstate\<lparr>deleted_pages := [''A'']\<rparr>)
   \<and> ''A'' \<in> set (deleted_pages (init_lstate\<lparr>deleted_pages := [''A'']\<rparr>))
   \<and> filter (\<lambda>tp. fst tp = ''A'') (undeleted_pages (init_lstate\<lparr>deleted_pages := [''A'']\<rparr>)) = []"
proof -
  let ?del = "log_event ''delete'' ''delete'' ''A'' 9 ParamsOther"
  let ?res = "log_event ''delete'' ''restore'' ''A'' 9 ParamsOther"
  let ?st = "init_lstate\<lparr>undeleted_pages := [(''A'', 9)]\<rparr>"
  let ?ops = "[UpdateArchivePageId 0 [''A''] 9, MoveTaggedArchivedRevision 9, MoveRevision 9]"
  have ev: "log_loop [] [] log_delete_restore init_lstate = Inr ?st"
    by (simp add: log_delete_restore_def log_event_def logevent_step_def init_lstate_def
          set_add_def)
  have sp: "log_delete_restore = [?del] @ ?res # []
     \<and> le_type ?res = ''delete'' \<and> le_action ?res = ''restore''
     \<and> (\<forall>x \<in> set []. \<not> touches (le_title ?res) x)"
    by (simp add: log_delete_restore_def log_event_def)
  note T = delete_restore_collapse[OF ev, of env_restore 0]
  from T[THEN conjunct2, THEN conjunct1, rule_format, OF sp]
  have r: "''A'' \<notin> set (deleted_pages ?st)"
    and f: "filter (\<lambda>tp. fst tp = ''A'') (undeleted_pages ?st) = [(''A'', 9)]"
    by (simp_all add: log_event_def)
  have ng: "raised (new_gen env0) = None" by (simp add: new_gen_def)
  have tail: "and_then (for_each (deleted_chunk_body env_restore 0)
                        (iter_chunks_titles env_restore (deleted_pages ?st)))
           (and_then (for_each (imported_chunk_body env_restore)
                        (iter_chunks_ids env_restore (imported_pages ?st)))
           (and_then (for_each (merge_body (moved_pages ?st)) (merged_pages ?st))
           (and_then (for_each bitmask_body (deleted_revisions ?st))
                     (gen_tag_updates env_restore ?st))))
             (yields (concat (map (restore_ops env_restore) (undeleted_pages ?st))) (new_gen env0))
       = (new_gen env0)\<lparr>yielded := ?ops\<rparr>"
    by (simp add: env_restore_def restore_ops_def run_simps)
  from T[THEN conjunct2, THEN conjunct2, THEN conjunct2, THEN conjunct1, rule_format, OF ng]
  have al: "after_log env_restore 0 ?st (new_gen env0) = (new_gen env0)\<lparr>yielded := ?ops\<rparr>"
    unfolding tail .
  have g1: "for_each (arv_body env_restore) (list_allrevisions env_restore (Some 0))
              (new_gen env_restore) = new_gen env0"
    by (simp add: env_restore_def env0_def new_gen_def get_text_id_gen_def)
  have hyp: "[] = new_revids (for_each (arv_body env_restore)
                (list_allrevisions env_restore (Some 0)) (new_gen env_restore))
          \<and> [] = [] \<and> log_delete_restore = logevents_list env_restore 0
          \<and> raised (for_each (arv_body env_restore)
                (list_allrevisions env_restore (Some 0)) (new_gen env_restore)) = None"
    unfolding g1 by (simp add: new_gen_def env_restore_def)
  from T[THEN conjunct2, THEN conjunct2, THEN conjunct2, THEN conjunct2, rule_format, OF hyp]
  have gu: "gen_update env_restore 0 = (new_gen env0)\<lparr>yielded := ?ops\<rparr>"
    unfolding g1 tail .
  have ev2: "log_loop [] [] log_restore_delete init_lstate
     = Inr (init_lstate\<lparr>deleted_pages := [''A'']\<rparr>)"
    by (simp add: log_restore_delete_def log_event_def logevent_step_def init_lstate_def
          set_add_def)
  have sp2: "log_restore_delete = [?res] @ ?del # []
     \<and> le_type ?del = ''delete'' \<and> le_action ?del = ''delete''
     \<and> (\<forall>x \<in> set []. \<not> touches (le_title ?del) x)"
    by (simp add: log_restore_delete_def log_event_def)
  note T2 = delete_restore_collapse[OF ev2, of env_restore 0]
  from T2[THEN conjunct2, THEN conjunct2, THEN conjunct1, rule_format, OF sp2]
  have d: "''A'' \<in> set (deleted_pages (init_lstate\<lparr>deleted_pages := [''A'']\<rparr>))"
    and f2: "filter (\<lambda>tp. fst tp = ''A'')
               (undeleted_pages (init_lstate\<lparr>deleted_pages := [''A'']\<rparr>)) = []"
    by (simp_all add: log_event_def)
  from ev T[THEN conjunct1] r f al gu ev2 d f2 show ?thesis by (intro conjI)
qed

subsection \<open>Tag changes without a revision ID\<close>

lemma tag_update_no_revid: "\<not> has_revid ps \<Longrightarrow> tag_update nrv ndrv ps st = Inr st"
  by (auto simp: has_revid_def tag_update_def split: le_params.splits option.splits)

lemma step_no_revid:
  "le_type le = ''tag'' \<Longrightarrow> le_action le = ''update'' \<Longrightarrow> \<not> has_revid (le_params le)
   \<Longrightarrow> logevent_step nrv ndrv le st = Inr st"
  by (simp add: logevent_step_def tag_update_no_revid)

text \<open>The log is the only part of the collaborators that the functions below do not
  read.\<close>

lemma env_upd_grb: "gen_revisions_body (e\<lparr>logevents_list := f\<rparr>) = gen_revisions_body e"
  by (simp add: gen_revisions_body_def fun_eq_iff)

lemma env_upd_gr: "gen_revisions (e\<lparr>logevents_list := f\<rparr>) = gen_revisions e"
  by (simp add: gen_revisions_def fun_eq_iff env_upd_grb cong: option.case_cong)

lemma env_upd_gdb:
  "gen_deletedrevisions_body (e\<lparr>logevents_list := f\<rparr>) = gen_deletedrevisions_body e"
  by (simp add: gen_deletedrevisions_body_def fun_eq_iff)

lemma env_upd_gd: "gen_deletedrevisions (e\<lparr>logevents_list := f\<rparr>) = gen_deletedrevisions e"
  by (simp add: gen_deletedrevisions_def fun_eq_iff env_upd_gdb cong: option.case_cong)

lemma env_upd_arv: "arv_body (e\<lparr>logevents_list := f\<rparr>) = arv_body e"
  by (simp add: arv_body_def fun_eq_iff env_upd_gr)

lemma env_upd_und: "undelete_body (e\<lparr>logevents_list := f\<rparr>) = undelete_body e"
  by (simp add: undelete_body_def fun_eq_iff Let_def cong: prod.case_cong)

lemma env_upd_dpb: "deleted_page_body (e\<lparr>logevents_list := f\<rparr>) = deleted_page_body e"
  by (simp add: deleted_page_body_def fun_eq_iff env_upd_gd cong: option.case_cong)

lemma env_upd_dcb: "deleted_chunk_body (e\<lparr>logevents_list := f\<rparr>) = deleted_chunk_body e"
  by (simp add: deleted_chunk_body_def fun_eq_iff env_upd_dpb Let_def cong: if_cong)

lemma env_upd_ipb: "imported_page_body (e\<lparr>logevents_list := f\<rparr>) = imported_page_body e"
  by (simp add: imported_page_body_def fun_eq_iff env_upd_dpb env_upd_gr
        cong: option.case_cong)

lemma env_upd_icb: "imported_chunk_body (e\<lparr>logevents_list := f\<rparr>) = imported_chunk_body e"
  by (simp add: imported_chunk_body_def fun_eq_iff env_upd_ipb Let_def cong: if_cong)

lemma env_upd_atb: "added_tags_body (e\<lparr>logevents_list := f\<rparr>) = added_tags_body e"
  by (simp add: added_tags_body_def add_tag_op_def fun_eq_iff cong: prod.case_cong)

lemma env_upd_after: "after_log (e\<lparr>logevents_list := f\<rparr>) = after_log e"
  by (simp add: after_log_def gen_tag_updates_def fun_eq_iff env_upd_und env_upd_dcb
      env_upd_icb env_upd_atb)

lemma env_upd_new: "new_gen (e\<lparr>logevents_list := f\<rparr>) = new_gen e"
  by (simp add: new_gen_def get_text_id_gen_def)

text \<open>
  Claim C10. A log event of type \<open>tag\<close> and action \<open>update\<close> whose parameters have no
  revision ID leaves every local variable of the loop as it was, the tag sets included,
  and the run yields the same statements, in the same generator state, as on the log
  without the event.
\<close>

theorem tag_change_without_revid_skipped:
  assumes "le_type le = ''tag''" and "le_action le = ''update''"
    and "\<not> has_revid (le_params le)"
  shows "logevent_step nrv ndrv le st = Inr st
     \<and> gen_update (e\<lparr>logevents_list := \<lambda>since. l1 @ le # l2\<rparr>) since
       = gen_update (e\<lparr>logevents_list := \<lambda>since. l1 @ l2\<rparr>) since"
proof -
  have s: "logevent_step nrv ndrv le st = Inr st" for nrv ndrv st
    using assms by (rule step_no_revid)
  have "log_loop nrv ndrv (l1 @ le # l2) st = log_loop nrv ndrv (l1 @ l2) st" for nrv ndrv st
    by (simp add: log_loop_append s split: sum.splits)
  then show ?thesis
    by (simp add: gen_update_def env_upd_arv env_upd_after env_upd_new s cong: sum.case_cong)
qed

theorem tag_change_without_revid_skipped_witness:
  "logevent_step [] [] le_tag_no_revid init_lstate = Inr init_lstate
   \<and> gen_update (env0\<lparr>logevents_list := \<lambda>since. log_delete_restore @ le_tag_no_revid # []\<rparr>) 0
     = gen_update (env0\<lparr>logevents_list := \<lambda>since. log_delete_restore @ []\<rparr>) 0"
proof -
  have "le_type le_tag_no_revid = ''tag''" and "le_action le_tag_no_revid = ''update''"
    and "\<not> has_revid (le_params le_tag_no_revid)"
    by (simp_all add: le_tag_no_revid_def log_event_def has_revid_def)
  then show ?thesis by (rule tag_change_without_revid_skipped)
qed

subsection \<open>Restored pages\<close>

lemma upd_archive:
  "apply_op (UpdateArchivePageId ns [t] pid) d = Inr d' \<Longrightarrow> sets_archive_page_id ns t pid d d'"
  unfolding sets_archive_page_id_def by auto

lemma move_tags:
  "apply_op (MoveTaggedArchivedRevision pid) d = Inr d' \<Longrightarrow> moves_tag_links pid d d'"
  unfolding moves_tag_links_def by (auto simp: Let_def split: if_splits)

lemma move_revs:
  "apply_op (MoveRevision pid) d = Inr d' \<Longrightarrow> moves_revisions pid d d'"
  unfolding moves_revisions_def by (auto simp: Let_def split: if_splits)

text \<open>
  Claim C8, as amended. For the entries of \<open>undeleted_pages\<close>, in their order, the loop
  yields three statements each and nothing else, and it does not raise: the update of
  \<open>ar_page_id\<close>, the move of the tag links, the move of the revisions. On the replica
  the update sets the page ID on every archived row with the namespace and title,
  whether the row had a page ID or not; each move takes the rows of the page ID out of
  the archived relation and puts them into the live one.
\<close>

theorem restore_three_operations:
  assumes "raised g = None"
  shows "for_each (undelete_body e) ups g = yields (concat (map (restore_ops e) ups)) g
   \<and> (\<forall>d d' ns t pid. apply_op (UpdateArchivePageId ns [t] pid) d = Inr d'
         \<longrightarrow> sets_archive_page_id ns t pid d d')
   \<and> (\<forall>d d' pid. apply_op (MoveTaggedArchivedRevision pid) d = Inr d'
         \<longrightarrow> moves_tag_links pid d d')
   \<and> (\<forall>d d' pid. apply_op (MoveRevision pid) d = Inr d' \<longrightarrow> moves_revisions pid d d')"
proof (intro conjI allI impI)
  show "for_each (undelete_body e) ups g = yields (concat (map (restore_ops e) ups)) g"
    using undelete_body_yields assms by (rule for_each_yield_only)
qed (erule upd_archive move_tags move_revs)+

theorem restore_three_operations_witness:
  "raised (new_gen env0) = None
   \<and> for_each (undelete_body env0) [(''A'', 9)] (new_gen env0)
       = yields [UpdateArchivePageId 0 [''A''] 9, MoveTaggedArchivedRevision 9, MoveRevision 9]
           (new_gen env0)
   \<and> sets_archive_page_id 0 ''A'' 9 (fresh_db\<lparr>tbl_archive := [ar5]\<rparr>)
        (fresh_db\<lparr>tbl_archive := [ar5\<lparr>ar_page_id := Some 9\<rparr>]\<rparr>)
   \<and> moves_tag_links 9
        (fresh_db\<lparr>tbl_archive := [ar5\<lparr>ar_page_id := Some 9\<rparr>],
                  tbl_tagged_archived_revision := [(5, ''t'')]\<rparr>)
        (fresh_db\<lparr>tbl_archive := [ar5\<lparr>ar_page_id := Some 9\<rparr>],
                  tbl_tagged_revision := [(5, ''t'')]\<rparr>)
   \<and> moves_revisions 9
        (fresh_db\<lparr>tbl_archive := [ar5\<lparr>ar_page_id := Some 9\<rparr>]\<rparr>)
        (fresh_db\<lparr>tbl_revision := [archive_to_revision (ar5\<lparr>ar_page_id := Some 9\<rparr>)]\<rparr>)"
proof -
  have r: "raised (new_gen env0) = None" by (simp add: new_gen_def)
  have u: "apply_op (UpdateArchivePageId 0 [''A''] 9) (fresh_db\<lparr>tbl_archive := [ar5]\<rparr>)
     = Inr (fresh_db\<lparr>tbl_archive := [ar5\<lparr>ar_page_id := Some 9\<rparr>]\<rparr>)"
    by (simp add: fresh_db_def ar5_def)
  have t: "apply_op (MoveTaggedArchivedRevision 9)
        (fresh_db\<lparr>tbl_archive := [ar5\<lparr>ar_page_id := Some 9\<rparr>],
                  tbl_tagged_archived_revision := [(5, ''t'')]\<rparr>)
     = Inr (fresh_db\<lparr>tbl_archive := [ar5\<lparr>ar_page_id := Some 9\<rparr>],
                  tbl_tagged_revision := [(5, ''t'')]\<rparr>)"
    by (simp add: fresh_db_def ar5_def)
  have m: "apply_op (MoveRevision 9) (fresh_db\<lparr>tbl_archive := [ar5\<lparr>ar_page_id := Some 9\<rparr>]\<rparr>)
     = Inr (fresh_db\<lparr>tbl_revision := [archive_to_revision (ar5\<lparr>ar_page_id := Some 9\<rparr>)]\<rparr>)"
    by (simp add: fresh_db_def ar5_def archive_to_revision_def)
  note T = restore_three_operations[OF r, of env0 "[(''A'', 9)]"]
  have ops: "concat (map (restore_ops env0) [(''A'', 9)])
      = [UpdateArchivePageId 0 [''A''] 9, MoveTaggedArchivedRevision 9, MoveRevision 9]"
    by (simp add: restore_ops_def env0_def)
  show ?thesis
    using r T[THEN conjunct1] T[THEN conjunct2, THEN conjunct1, rule_format, OF u]
      T[THEN conjunct2, THEN conjunct2, THEN conjunct1, rule_format, OF t]
      T[THEN conjunct2, THEN conjunct2, THEN conjunct2, rule_format, OF m]
    by (simp only: ops simp_thms)
qed

lemma gen_restore: "gen_update env_restore 0 = (new_gen env0)\<lparr>yielded := 
    [UpdateArchivePageId 0 [''A''] 9, MoveTaggedArchivedRevision 9, MoveRevision 9]\<rparr>"
  by (simp add: gen_update_def env_restore_def env0_def new_gen_def and_then_def
       log_delete_restore_def log_event_def logevent_step_def init_lstate_def set_add_def
       after_log_def undelete_body_def yield_def gen_tag_updates_def get_text_id_gen_def sql_max_def)

text \<open>
  Claim C8 as it is stated fails: the update is not limited to the rows whose page ID is
  unknown. In the window that restores page \<open>A\<close> with the page ID 9, the first
  statement rewrites an archived row of \<open>A\<close> whose page ID was known to be 7.
\<close>

theorem restore_update_overwrites_known_page_id:
  "yielded (gen_update env_restore 0)
     = [UpdateArchivePageId 0 [''A''] 9, MoveTaggedArchivedRevision 9, MoveRevision 9]
   \<and> ar_namespace ar6 = 0 \<and> ar_title ar6 = ''A'' \<and> ar_page_id ar6 = Some 7
   \<and> apply_op (UpdateArchivePageId 0 [''A''] 9) (fresh_db\<lparr>tbl_archive := [ar6]\<rparr>)
       = Inr (fresh_db\<lparr>tbl_archive := [ar6\<lparr>ar_page_id := Some 9\<rparr>]\<rparr>)
   \<and> ar6\<lparr>ar_page_id := Some 9\<rparr> \<noteq> ar6"
  by (simp add: gen_restore) (simp add: ar6_def ar5_def fresh_db_def)

subsection \<open>Upserts of revisions\<close>

text \<open>
  Claim C9. When the relation has a row with the revision ID of the proposed row, the
  upsert succeeds, changes no other relation, and every row of the relation is as
  before in every column but the content reference: a row with another revision ID is
  unchanged, a row with this revision ID has the content reference of the proposed row.
  The same holds for the archived relation.
\<close>

theorem upsert_conflict_changes_text_id_only:
  "((\<exists>r \<in> set (tbl_revision d). rev_id r = rev_id x) \<longrightarrow>
     (\<exists>d'. apply_op (InsertRevision x) d = Inr d'
        \<and> d'\<lparr>tbl_revision := tbl_revision d\<rparr> = d
        \<and> length (tbl_revision d') = length (tbl_revision d)
        \<and> (\<forall>i < length (tbl_revision d).
             (tbl_revision d' ! i)\<lparr>rev_text_id := rev_text_id (tbl_revision d ! i)\<rparr>
               = tbl_revision d ! i
             \<and> (rev_id (tbl_revision d ! i) \<noteq> rev_id x \<longrightarrow>
                  tbl_revision d' ! i = tbl_revision d ! i)
             \<and> (rev_id (tbl_revision d ! i) = rev_id x \<longrightarrow>
                  rev_text_id (tbl_revision d' ! i) = rev_text_id x))))
   \<and> ((\<exists>r \<in> set (tbl_archive d). ar_rev_id r = ar_rev_id a) \<longrightarrow>
     (\<exists>d'. apply_op (InsertArchive a) d = Inr d'
        \<and> d'\<lparr>tbl_archive := tbl_archive d\<rparr> = d
        \<and> length (tbl_archive d') = length (tbl_archive d)
        \<and> (\<forall>i < length (tbl_archive d).
             (tbl_archive d' ! i)\<lparr>ar_text_id := ar_text_id (tbl_archive d ! i)\<rparr>
               = tbl_archive d ! i
             \<and> (ar_rev_id (tbl_archive d ! i) \<noteq> ar_rev_id a \<longrightarrow>
                  tbl_archive d' ! i = tbl_archive d ! i)
             \<and> (ar_rev_id (tbl_archive d ! i) = ar_rev_id a \<longrightarrow>
                  ar_text_id (tbl_archive d' ! i) = ar_text_id a))))"
  by (auto simp: upsert_def)

theorem upsert_conflict_changes_text_id_only_witness:
  "(\<exists>r \<in> set (tbl_revision db_rev5). rev_id r = rev_id rev5_again)
   \<and> (\<exists>r \<in> set (tbl_archive db_rev5). ar_rev_id r = ar_rev_id ar5_again)
   \<and> (\<exists>d'. apply_op (InsertRevision rev5_again) db_rev5 = Inr d'
         \<and> (tbl_revision d' ! 0)\<lparr>rev_text_id := None\<rparr> = archive_to_revision ar5
         \<and> rev_text_id (tbl_revision d' ! 0) = Some 1)
   \<and> (\<exists>d'. apply_op (InsertArchive ar5_again) db_rev5 = Inr d'
         \<and> (tbl_archive d' ! 0)\<lparr>ar_text_id := None\<rparr> = ar5
         \<and> ar_text_id (tbl_archive d' ! 0) = Some 1)"
proof -
  have c1: "\<exists>r \<in> set (tbl_revision db_rev5). rev_id r = rev_id rev5_again"
    and c2: "\<exists>r \<in> set (tbl_archive db_rev5). ar_rev_id r = ar_rev_id ar5_again"
    by (simp_all add: db_rev5_def rev5_again_def ar5_again_def fresh_db_def
          archive_to_revision_def ar5_def)
  note T = upsert_conflict_changes_text_id_only[of db_rev5 rev5_again ar5_again]
  from T[THEN conjunct1, rule_format, OF c1] obtain d1 where
    d1: "apply_op (InsertRevision rev5_again) db_rev5 = Inr d1"
    and r1: "\<forall>i < length (tbl_revision db_rev5).
             (tbl_revision d1 ! i)\<lparr>rev_text_id := rev_text_id (tbl_revision db_rev5 ! i)\<rparr>
               = tbl_revision db_rev5 ! i
             \<and> (rev_id (tbl_revision db_rev5 ! i) \<noteq> rev_id rev5_again \<longrightarrow>
                  tbl_revision d1 ! i = tbl_revision db_rev5 ! i)
             \<and> (rev_id (tbl_revision db_rev5 ! i) = rev_id rev5_again \<longrightarrow>
                  rev_text_id (tbl_revision d1 ! i) = rev_text_id rev5_again)"
    by blast
  from T[THEN conjunct2, rule_format, OF c2] obtain d2 where
    d2: "apply_op (InsertArchive ar5_again) db_rev5 = Inr d2"
    and r2: "\<forall>i < length (tbl_archive db_rev5).
             (tbl_archive d2 ! i)\<lparr>ar_text_id := ar_text_id (tbl_archive db_rev5 ! i)\<rparr>
               = tbl_archive db_rev5 ! i
             \<and> (ar_rev_id (tbl_archive db_rev5 ! i) \<noteq> ar_rev_id ar5_again \<longrightarrow>
                  tbl_archive d2 ! i = tbl_archive db_rev5 ! i)
             \<and> (ar_rev_id (tbl_archive db_rev5 ! i) = ar_rev_id ar5_again \<longrightarrow>
                  ar_text_id (tbl_archive d2 ! i) = ar_text_id ar5_again)"
    by blast
  have l: "0 < length (tbl_revision db_rev5)" "0 < length (tbl_archive db_rev5)"
    by (simp_all add: db_rev5_def fresh_db_def)
  from r1[rule_format, OF l(1)]
  have e1: "(tbl_revision d1 ! 0)\<lparr>rev_text_id := None\<rparr> = archive_to_revision ar5
         \<and> rev_text_id (tbl_revision d1 ! 0) = Some 1"
    by (simp add: db_rev5_def fresh_db_def rev5_again_def archive_to_revision_def ar5_def)
  from r2[rule_format, OF l(2)]
  have e2: "(tbl_archive d2 ! 0)\<lparr>ar_text_id := None\<rparr> = ar5
         \<and> ar_text_id (tbl_archive d2 ! 0) = Some 1"
    by (simp add: db_rev5_def fresh_db_def ar5_again_def ar5_def)
  from c1 c2 d1 e1 d2 e2 show ?thesis by blast
qed

subsection \<open>Exceptions of the generator\<close>

lemma and_then_not_raised:
  "raised (and_then f h g) = None \<Longrightarrow> raised (f g) = None \<and> raised (h (f g)) = None"
  by (auto simp: and_then_def Let_def split: if_splits)

lemma for_each_not_raised:
  "raised (for_each body xs g) = None \<Longrightarrow> x \<in> set xs \<Longrightarrow> \<exists>g'. raised (body x g') = None"
proof (induction xs arbitrary: g)
  case Nil then show ?case by simp
next
  case (Cons y ys)
  from Cons.prems(1) have r: "raised (body y g) = None"
    by (auto simp: Let_def split: if_splits)
  show ?case
  proof (cases "x = y")
    case True with r show ?thesis by blast
  next
    case False
    with Cons.prems have "x \<in> set ys" and "raised (for_each body ys (body y g)) = None"
      using r by (auto simp: Let_def)
    then show ?thesis using Cons.IH by blast
  qed
qed

lemma for_each_append:
  "raised (for_each body xs g) = None \<Longrightarrow>
     for_each body (xs @ ys) g = for_each body ys (for_each body xs g)"
proof (induction xs arbitrary: g)
  case Nil then show ?case by simp
next
  case (Cons y xs)
  from Cons.prems have r: "raised (body y g) = None"
    by (auto simp: Let_def split: if_splits)
  with Cons.prems have "raised (for_each body xs (body y g)) = None" by (simp add: Let_def)
  from Cons.IH[OF this] r show ?case by (simp add: Let_def)
qed

lemma deleted_chunk_continue:
  "drvcontinue (call_api_deleted e c since) \<Longrightarrow>
     deleted_chunk_body e since c g = raise (NotImplementedError
        ''Handling of the 'drvcontinue' parameter is not implemented.'') g"
  by (simp add: deleted_chunk_body_def)

lemma imported_chunk_continue:
  "rvcontinue (call_api_imported e c) \<or> drvcontinue (call_api_imported e c) \<Longrightarrow>
     imported_chunk_body e c g = raise (NotImplementedError
        ''Handling of the 'rvcontinue' and 'drvcontinue' parameters is not implemented.'') g"
  by (simp add: imported_chunk_body_def)

lemma raise_raised: "raised (raise err g) \<noteq> None"
  by (simp add: raise_def)

lemma for_each_stops:
  assumes "raised (for_each body cs1 g) = None" and "\<And>g. body c g = raise err g"
  shows "for_each body (cs1 @ c # cs2) g = raise err (for_each body cs1 g)"
  using assms by (simp add: for_each_append Let_def raise_def)

text \<open>
  Claim C4. When the result of the query for a chunk of deleted pages has the key
  \<^verbatim>\<open>drvcontinue\<close>, the loop over the chunks ends there with the not-implemented
  error: what the earlier chunks yielded is kept and nothing of this result or of a
  later chunk is processed. The same holds for a chunk of imported pages whose result
  has \<^verbatim>\<open>rvcontinue\<close> or \<^verbatim>\<open>drvcontinue\<close>. So a run of \<^verbatim>\<open>gen_update\<close> that ends
  without an exception has met no continuation key in any result it asked for.
\<close>

theorem unsupported_continuation_raises:
  "(raised (for_each (deleted_chunk_body e since) cs g) = None
      \<and> drvcontinue (call_api_deleted e c since) \<longrightarrow>
    for_each (deleted_chunk_body e since) (cs @ c # ds) g
      = raise (NotImplementedError
          ''Handling of the 'drvcontinue' parameter is not implemented.'')
          (for_each (deleted_chunk_body e since) cs g))
   \<and> (raised (for_each (imported_chunk_body e) js g) = None
      \<and> (rvcontinue (call_api_imported e j) \<or> drvcontinue (call_api_imported e j)) \<longrightarrow>
    for_each (imported_chunk_body e) (js @ j # ks) g
      = raise (NotImplementedError
          ''Handling of the 'rvcontinue' and 'drvcontinue' parameters is not implemented.'')
          (for_each (imported_chunk_body e) js g))
   \<and> (raised (gen_update e since) = None \<longrightarrow>
       (\<exists>st. log_loop
               (new_revids (for_each (arv_body e) (list_allrevisions e (Some since)) (new_gen e)))
               [] (logevents_list e since) init_lstate = Inr st
          \<and> (\<forall>c \<in> set (iter_chunks_titles e (deleted_pages st)).
                \<not> drvcontinue (call_api_deleted e c since))
          \<and> (\<forall>j \<in> set (iter_chunks_ids e (imported_pages st)).
                \<not> rvcontinue (call_api_imported e j)
                \<and> \<not> drvcontinue (call_api_imported e j))))"
proof (intro conjI impI)
  assume "raised (for_each (deleted_chunk_body e since) cs g) = None
      \<and> drvcontinue (call_api_deleted e c since)"
  then show "for_each (deleted_chunk_body e since) (cs @ c # ds) g
      = raise (NotImplementedError
          ''Handling of the 'drvcontinue' parameter is not implemented.'')
          (for_each (deleted_chunk_body e since) cs g)"
    by (intro for_each_stops deleted_chunk_continue) simp_all
next
  assume "raised (for_each (imported_chunk_body e) js g) = None
      \<and> (rvcontinue (call_api_imported e j) \<or> drvcontinue (call_api_imported e j))"
  then show "for_each (imported_chunk_body e) (js @ j # ks) g
      = raise (NotImplementedError
          ''Handling of the 'rvcontinue' and 'drvcontinue' parameters is not implemented.'')
          (for_each (imported_chunk_body e) js g)"
    by (intro for_each_stops imported_chunk_continue) simp_all
next
  let ?g1 = "for_each (arv_body e) (list_allrevisions e (Some since)) (new_gen e)"
  assume ok: "raised (gen_update e since) = None"
  then have g1: "raised ?g1 = None"
    unfolding gen_update_def by (rule and_then_not_raised[THEN conjunct1])
  from ok obtain st where
    st: "log_loop (new_revids ?g1) [] (logevents_list e since) init_lstate = Inr st"
    and al: "raised (after_log e since st ?g1) = None"
    unfolding gen_update_def
    by (auto dest!: and_then_not_raised simp: raise_def split: sum.splits)
  from and_then_not_raised[OF al[unfolded after_log_def]]
  obtain g2 where
    d: "raised (for_each (deleted_chunk_body e since)
                 (iter_chunks_titles e (deleted_pages st)) g2) = None"
    and rest: "raised (and_then (for_each (imported_chunk_body e) (iter_chunks_ids e (imported_pages st)))
    (and_then (for_each (merge_body (moved_pages st)) (merged_pages st))
    (and_then (for_each bitmask_body (deleted_revisions st))
              (gen_tag_updates e st)))
        (for_each (deleted_chunk_body e since)
                 (iter_chunks_titles e (deleted_pages st)) g2)) = None"
    by (blast dest: and_then_not_raised)
  from and_then_not_raised[OF rest] obtain g3 where
    j: "raised (for_each (imported_chunk_body e) (iter_chunks_ids e (imported_pages st)) g3) = None"
    by blast
  have D: "\<forall>c \<in> set (iter_chunks_titles e (deleted_pages st)).
                \<not> drvcontinue (call_api_deleted e c since)"
  proof
    fix c assume "c \<in> set (iter_chunks_titles e (deleted_pages st))"
    from for_each_not_raised[OF d this] obtain g' where
      "raised (deleted_chunk_body e since c g') = None" by blast
    then show "\<not> drvcontinue (call_api_deleted e c since)"
      by (auto simp: deleted_chunk_continue raise_def)
  qed
  have I: "\<forall>j \<in> set (iter_chunks_ids e (imported_pages st)).
                \<not> rvcontinue (call_api_imported e j)
                \<and> \<not> drvcontinue (call_api_imported e j)"
  proof
    fix c assume "c \<in> set (iter_chunks_ids e (imported_pages st))"
    from for_each_not_raised[OF j this] obtain g' where
      "raised (imported_chunk_body e c g') = None" by blast
    then show "\<not> rvcontinue (call_api_imported e c) \<and> \<not> drvcontinue (call_api_imported e c)"
      using imported_chunk_continue[of e c g'] by (auto simp: raise_def)
  qed
  from st D I show "\<exists>st. log_loop (new_revids ?g1) [] (logevents_list e since) init_lstate = Inr st
          \<and> (\<forall>c \<in> set (iter_chunks_titles e (deleted_pages st)).
                \<not> drvcontinue (call_api_deleted e c since))
          \<and> (\<forall>j \<in> set (iter_chunks_ids e (imported_pages st)).
                \<not> rvcontinue (call_api_imported e j)
                \<and> \<not> drvcontinue (call_api_imported e j))"
    by blast
qed

theorem unsupported_continuation_raises_witness:
  "for_each (deleted_chunk_body env_deleted_continue 0) ([] @ [''A''] # []) (new_gen env0)
     = raise (NotImplementedError
          ''Handling of the 'drvcontinue' parameter is not implemented.'') (new_gen env0)
   \<and> for_each (imported_chunk_body env_imported_continue) ([] @ [9] # []) (new_gen env0)
     = raise (NotImplementedError
          ''Handling of the 'rvcontinue' and 'drvcontinue' parameters is not implemented.'')
          (new_gen env0)
   \<and> raised (gen_update env_deleted_tagged 0) = None
   \<and> \<not> drvcontinue (call_api_deleted env_deleted_tagged [''A''] 0)"
proof -
  have h1: "raised (for_each (deleted_chunk_body env_deleted_continue 0) [] (new_gen env0)) = None
      \<and> drvcontinue (call_api_deleted env_deleted_continue [''A''] 0)"
    by (simp add: new_gen_def env_deleted_continue_def env_deleted_tagged_def env0_def
          no_result_def)
  have h2: "raised (for_each (imported_chunk_body env_imported_continue) [] (new_gen env0)) = None
      \<and> (rvcontinue (call_api_imported env_imported_continue [9])
          \<or> drvcontinue (call_api_imported env_imported_continue [9]))"
    by (simp add: new_gen_def env_imported_continue_def env0_def no_result_def)
  have h3: "raised (gen_update env_deleted_tagged 0) = None"
    by (simp add: env_deleted_tagged_def page_A_def rev5_def run_simps)
  have c1: "for_each (deleted_chunk_body env_deleted_continue 0) ([] @ [''A''] # []) (new_gen env0)
     = raise (NotImplementedError
          ''Handling of the 'drvcontinue' parameter is not implemented.'') (new_gen env0)"
    using unsupported_continuation_raises[where e=env_deleted_continue and since=0 and cs="[]"
        and g="new_gen env0" and c="[''A'']" and ds="[]", THEN conjunct1, rule_format, OF h1]
    by simp
  have c2: "for_each (imported_chunk_body env_imported_continue) ([] @ [9] # []) (new_gen env0)
     = raise (NotImplementedError
          ''Handling of the 'rvcontinue' and 'drvcontinue' parameters is not implemented.'')
          (new_gen env0)"
    using unsupported_continuation_raises[where e=env_imported_continue and js="[]"
        and g="new_gen env0" and j="[9]" and ks="[]", THEN conjunct2, THEN conjunct1, rule_format, OF h2]
    by simp
  from unsupported_continuation_raises[where e=env_deleted_tagged and since=0,
        THEN conjunct2, THEN conjunct2, rule_format, OF h3]
  obtain st where
    st: "log_loop (new_revids (for_each (arv_body env_deleted_tagged)
             (list_allrevisions env_deleted_tagged (Some 0)) (new_gen env_deleted_tagged)))
           [] (logevents_list env_deleted_tagged 0) init_lstate = Inr st"
    and nc: "\<forall>c \<in> set (iter_chunks_titles env_deleted_tagged (deleted_pages st)).
                \<not> drvcontinue (call_api_deleted env_deleted_tagged c 0)"
    by blast
  from st have "deleted_pages st = [''A'']"
    by (auto simp: env_deleted_tagged_def new_gen_def run_simps)
  with nc have c3: "\<not> drvcontinue (call_api_deleted env_deleted_tagged [''A''] 0)"
    by (simp add: env_deleted_tagged_def env0_def)
  from c1 c2 h3 c3 show ?thesis by blast
qed

text \<open>
  Claim C2, the code at a window with a merge and a move of the same page \<open>p\<close>: the run
  ends with the not-implemented error and has yielded nothing, no merge statement
  either. The error is the same for every \<open>p\<close>: its message is the format string
  itself, with the two places for the page names unfilled.
\<close>

theorem merge_error_names_no_page:
  "gen_update (env_merge_move p) since
     = raise (NotImplementedError
         ''Cannot merge revisions from [[{}]] to [[{}]]: target page has been moved.'')
         (new_gen env0)"
  by (simp add: env_merge_move_def run_simps)

text \<open>
  Claim C3, the code at a window in which page \<open>A\<close> is deleted and whose log adds the
  tag \<open>t\<close> to revision 5 of \<open>A\<close>, a revision that arrives through the query for the
  deleted revisions: the tag link is yielded once with the archived revision and once
  more by the tag reconciliation. Revision 5 enters \<open>new_revids\<close> only after the loop
  over the log events has run.
\<close>

theorem tag_of_new_deleted_revision_applied_twice:
  "gen_update env_deleted_tagged 0
     = (new_gen env0)\<lparr>yielded := [InsertArchive ar5, InsertTaggedArchivedRevision 5 ''t'',
                                   InsertTaggedArchivedRevision 5 ''t''],
                       new_revids := [5]\<rparr>"
  by (simp add: env_deleted_tagged_def page_A_def rev5_def ar5_def run_simps)

subsection \<open>The text-ID allocator\<close>

lemma for_each_inv:
  assumes "\<And>x g. P g \<Longrightarrow> P (body x g)"
  shows "P g \<Longrightarrow> P (for_each body xs g)"
  by (induction xs arbitrary: g) (auto simp: Let_def assms)

lemma and_then_inv:
  assumes "\<And>g. P g \<Longrightarrow> P (f g)" and "\<And>g. P g \<Longrightarrow> P (h g)"
  shows "P g \<Longrightarrow> P (and_then f h g)"
  by (auto simp: and_then_def Let_def assms)

lemma alloc_inv_for_each:
  assumes "\<And>x g. alloc_inv seed g \<Longrightarrow> alloc_inv seed (body x g)"
  shows "alloc_inv seed g \<Longrightarrow> alloc_inv seed (for_each body xs g)"
  using assms by (rule for_each_inv)

lemma alloc_inv_and_then:
  assumes "\<And>g. alloc_inv seed g \<Longrightarrow> alloc_inv seed (f g)"
    and "\<And>g. alloc_inv seed g \<Longrightarrow> alloc_inv seed (h g)"
  shows "alloc_inv seed g \<Longrightarrow> alloc_inv seed (and_then f h g)"
  using assms by (rule and_then_inv)

lemma set_text_ids: "set (text_ids xs) = {i. \<exists>x \<in> set xs. op_text_id x = Some i}"
  by (force simp: text_ids_def List.map_filter_def)

lemma alloc_inv_yield:
  "alloc_inv seed g \<Longrightarrow> op_text_id x = None \<Longrightarrow> alloc_inv seed (yield x g)"
  by (auto simp: alloc_inv_def yield_def set_text_ids)

lemma alloc_inv_yields:
  "alloc_inv seed g \<Longrightarrow> \<forall>x \<in> set xs. op_text_id x = None \<Longrightarrow> alloc_inv seed (yields xs g)"
  by (auto simp: alloc_inv_def yields_def set_text_ids)

lemma alloc_inv_raise: "alloc_inv seed g \<Longrightarrow> alloc_inv seed (raise err g)"
  by (auto simp: alloc_inv_def raise_def)

lemma alloc_inv_next:
  assumes "alloc_inv seed g"
  shows "alloc_inv seed (snd (next_text_id g))"
    and "fst (next_text_id g) \<in> set (allocated (snd (next_text_id g)))"
proof -
  from assms have s: "seed \<le> text_id_value g" and a: "allocated g = [seed + 1 .. text_id_value g]"
    and t: "set (text_ids (yielded g)) \<subseteq> set (allocated g)"
    unfolding alloc_inv_def by blast+
  from s have u: "[seed + 1 .. text_id_value g + 1] = [seed + 1 .. text_id_value g] @ [text_id_value g + 1]"
    by (simp add: upto_rec2)
  have "yielded (snd (next_text_id g)) = yielded g"
    and "text_id_value (snd (next_text_id g)) = text_id_value g + 1"
    and al: "allocated (snd (next_text_id g)) = allocated g @ [text_id_value g + 1]"
    by (simp_all add: next_text_id_def Let_def)
  with s a t u show "alloc_inv seed (snd (next_text_id g))"
    unfolding alloc_inv_def by auto
  show "fst (next_text_id g) \<in> set (allocated (snd (next_text_id g)))"
    by (simp add: next_text_id_def Let_def)
qed

lemma alloc_inv_gen_text:
  "alloc_inv seed g \<Longrightarrow> v \<in> set (allocated g) \<Longrightarrow> alloc_inv seed (gen_text rv v g)"
  by (auto simp: gen_text_def alloc_inv_def raise_def yield_def set_text_ids
        split: option.splits)

lemma alloc_inv_alloc_text:
  assumes "alloc_inv seed g"
  shows "alloc_inv seed (gen_text rv (fst (next_text_id g)) (snd (next_text_id g)))"
  using alloc_inv_next(1,2)[OF assms] by (rule alloc_inv_gen_text)

lemma gen_revisions_body_shape:
  "\<exists>row. gen_revisions_body e page rv g =
     (let g' = (if with_content e
                then gen_text rv (fst (next_text_id g)) (snd (next_text_id g)) else g)
      in if raised g' \<noteq> None then g'
         else yields (map (InsertTaggedRevision (revid rv)) (tags_of rv))
                (yield (InsertRevision row) g'))"
  by (cases "with_content e")
     (simp_all add: gen_revisions_body_def Let_def case_prod_beta, blast+)

lemma gen_deletedrevisions_body_shape:
  "\<exists>row. gen_deletedrevisions_body e page rv g =
     (let g' = (if with_content e
                then gen_text rv (fst (next_text_id g)) (snd (next_text_id g)) else g)
      in if raised g' \<noteq> None then g'
         else yields (map (InsertTaggedArchivedRevision (revid rv)) (tags_of rv))
                (yield (InsertArchive row) g'))"
  by (cases "with_content e")
     (simp_all add: gen_deletedrevisions_body_def Let_def case_prod_beta, blast+)

lemma alloc_inv_gen_revisions_body:
  assumes "alloc_inv seed g"
  shows "alloc_inv seed (gen_revisions_body e page rv g)"
proof -
  let ?g' = "if with_content e
                then gen_text rv (fst (next_text_id g)) (snd (next_text_id g)) else g"
  have i: "alloc_inv seed ?g'" using assms alloc_inv_alloc_text[OF assms] by simp
  obtain row where "gen_revisions_body e page rv g =
     (if raised ?g' \<noteq> None then ?g'
         else yields (map (InsertTaggedRevision (revid rv)) (tags_of rv))
                (yield (InsertRevision row) ?g'))"
    using gen_revisions_body_shape[of e page rv g] unfolding Let_def by blast
  moreover have "alloc_inv seed (yields (map (InsertTaggedRevision (revid rv)) (tags_of rv))
                (yield (InsertRevision row) ?g'))"
    by (intro alloc_inv_yields alloc_inv_yield i) auto
  ultimately show ?thesis using i by presburger
qed

lemma alloc_inv_gen_deletedrevisions_body:
  assumes "alloc_inv seed g"
  shows "alloc_inv seed (gen_deletedrevisions_body e page rv g)"
proof -
  let ?g' = "if with_content e
                then gen_text rv (fst (next_text_id g)) (snd (next_text_id g)) else g"
  have i: "alloc_inv seed ?g'" using assms alloc_inv_alloc_text[OF assms] by simp
  obtain row where "gen_deletedrevisions_body e page rv g =
     (if raised ?g' \<noteq> None then ?g'
         else yields (map (InsertTaggedArchivedRevision (revid rv)) (tags_of rv))
                (yield (InsertArchive row) ?g'))"
    using gen_deletedrevisions_body_shape[of e page rv g] unfolding Let_def by blast
  moreover have "alloc_inv seed (yields (map (InsertTaggedArchivedRevision (revid rv)) (tags_of rv))
                (yield (InsertArchive row) ?g'))"
    by (intro alloc_inv_yields alloc_inv_yield i) auto
  ultimately show ?thesis using i by presburger
qed

lemma alloc_inv_gen_revisions:
  "alloc_inv seed g \<Longrightarrow> alloc_inv seed (gen_revisions e page g)"
  by (auto simp: gen_revisions_def split: option.splits
        intro: alloc_inv_raise alloc_inv_for_each alloc_inv_gen_revisions_body)

lemma alloc_inv_gen_deletedrevisions:
  "alloc_inv seed g \<Longrightarrow> alloc_inv seed (gen_deletedrevisions e page g)"
  by (auto simp: gen_deletedrevisions_def split: option.splits
        intro: alloc_inv_raise alloc_inv_for_each alloc_inv_gen_deletedrevisions_body)

lemma alloc_inv_add_new_revids:
  "alloc_inv seed g \<Longrightarrow> alloc_inv seed (add_new_revids revs g)"
  by (auto simp: alloc_inv_def add_new_revids_def)

lemma alloc_inv_arv_body: "alloc_inv seed g \<Longrightarrow> alloc_inv seed (arv_body e page g)"
  unfolding arv_body_def
  by (rule alloc_inv_and_then)
     (auto split: option.splits intro: alloc_inv_gen_revisions alloc_inv_raise
        alloc_inv_add_new_revids)

lemma alloc_inv_undelete_body: "alloc_inv seed g \<Longrightarrow> alloc_inv seed (undelete_body e tp g)"
  by (cases tp) (simp add: undelete_body_def Let_def alloc_inv_yield)

lemma alloc_inv_deleted_page_body:
  "alloc_inv seed g \<Longrightarrow> alloc_inv seed (deleted_page_body e page g)"
  unfolding deleted_page_body_def
  by (auto split: option.splits
        intro!: alloc_inv_and_then alloc_inv_gen_deletedrevisions alloc_inv_add_new_revids)

lemma alloc_inv_deleted_chunk_body:
  "alloc_inv seed g \<Longrightarrow> alloc_inv seed (deleted_chunk_body e since c g)"
  by (auto simp: deleted_chunk_body_def Let_def
        intro: alloc_inv_raise alloc_inv_for_each alloc_inv_deleted_page_body)

lemma alloc_inv_imported_page_body:
  "alloc_inv seed g \<Longrightarrow> alloc_inv seed (imported_page_body e page g)"
  unfolding imported_page_body_def
  by (rule alloc_inv_and_then)
     (auto split: option.splits
        intro!: alloc_inv_and_then alloc_inv_gen_revisions alloc_inv_add_new_revids
          alloc_inv_deleted_page_body)

lemma alloc_inv_imported_chunk_body:
  "alloc_inv seed g \<Longrightarrow> alloc_inv seed (imported_chunk_body e c g)"
  by (auto simp: imported_chunk_body_def Let_def
        intro: alloc_inv_raise alloc_inv_for_each alloc_inv_imported_page_body)

lemma alloc_inv_merge_body: "alloc_inv seed g \<Longrightarrow> alloc_inv seed (merge_body moved pp g)"
  by (cases pp) (auto simp: merge_body_def split: le_params.splits
        intro: alloc_inv_raise alloc_inv_yield)

lemma alloc_inv_bitmask_body: "alloc_inv seed g \<Longrightarrow> alloc_inv seed (bitmask_body rb g)"
  by (cases rb) (simp add: bitmask_body_def alloc_inv_yield)

lemma alloc_inv_added_tags_body: "alloc_inv seed g \<Longrightarrow> alloc_inv seed (added_tags_body e ra g)"
  by (cases ra) (auto simp: added_tags_body_def add_tag_op_def intro!: alloc_inv_for_each alloc_inv_yield)

lemma alloc_inv_removed_tags_body: "alloc_inv seed g \<Longrightarrow> alloc_inv seed (removed_tags_body rr g)"
  by (cases rr) (auto simp: removed_tags_body_def intro!: alloc_inv_for_each alloc_inv_yield)

lemma alloc_inv_gen_tag_updates:
  "alloc_inv seed g \<Longrightarrow> alloc_inv seed (gen_tag_updates e st g)"
  unfolding gen_tag_updates_def
  by (intro alloc_inv_and_then alloc_inv_for_each alloc_inv_added_tags_body alloc_inv_removed_tags_body)

lemma alloc_inv_after_log: "alloc_inv seed g \<Longrightarrow> alloc_inv seed (after_log e since st g)"
  unfolding after_log_def
  by (intro alloc_inv_and_then alloc_inv_for_each alloc_inv_undelete_body alloc_inv_deleted_chunk_body
        alloc_inv_imported_chunk_body alloc_inv_merge_body alloc_inv_bitmask_body
        alloc_inv_gen_tag_updates)

lemma alloc_inv_new_gen: "alloc_inv (get_text_id_gen e) (new_gen e)"
  by (simp add: alloc_inv_def new_gen_def set_text_ids)

lemma alloc_inv_gen_update: "alloc_inv (get_text_id_gen e) (gen_update e since)"
  unfolding gen_update_def
  by (rule alloc_inv_and_then[OF _ _ alloc_inv_new_gen])
     (auto simp: Let_def split: sum.splits
        intro: alloc_inv_for_each alloc_inv_arv_body alloc_inv_raise alloc_inv_after_log)

lemma alloc_inv_gen_insert: "alloc_inv (get_text_id_gen e) (gen_insert e)"
  unfolding gen_insert_def
  by (intro alloc_inv_and_then alloc_inv_for_each alloc_inv_gen_revisions alloc_inv_gen_deletedrevisions
        alloc_inv_new_gen)

lemma seed_is_max:
  "get_text_id_gen e = (if text_old_ids e = [] then 0 else Max (set (text_old_ids e)))"
proof (cases "text_old_ids e")
  case Nil
  then show ?thesis by (simp add: get_text_id_gen_def sql_max_def)
next
  case (Cons y ys)
  then show ?thesis
    unfolding get_text_id_gen_def sql_max_def using Max.set_eq_fold[of y ys] by simp
qed

lemma seed_bounds_stored: "x \<in> set (text_old_ids e) \<Longrightarrow> x \<le> get_text_id_gen e"
  by (auto simp: seed_is_max)

text \<open>
  Claim C7. In a run of \<^verbatim>\<open>gen_update\<close> or of \<^verbatim>\<open>gen_insert\<close> the allocator starts from
  the largest blob ID stored, or from 0 when there is none, and the IDs it has returned
  are the numbers that follow it, one after the other, up to its current value; the
  next one is the current value plus one. So they increase strictly, none occurs twice,
  each is greater than every stored blob ID, and every blob that the run writes has one
  of them.
\<close>

theorem text_ids_increase_from_seed:
  assumes "g = gen_update e since \<or> g = gen_insert e"
  shows "get_text_id_gen e = (if text_old_ids e = [] then 0 else Max (set (text_old_ids e)))
     \<and> allocated g = [get_text_id_gen e + 1 .. text_id_value g]
     \<and> fst (next_text_id g) = text_id_value g + 1
     \<and> sorted_wrt (<) (allocated g) \<and> distinct (allocated g)
     \<and> (\<forall>i \<in> set (allocated g). \<forall>j \<in> set (text_old_ids e). j < i)
     \<and> set (text_ids (yielded g)) \<subseteq> set (allocated g)"
proof -
  from assms have inv: "alloc_inv (get_text_id_gen e) g"
    using alloc_inv_gen_update alloc_inv_gen_insert by auto
  then have a: "allocated g = [get_text_id_gen e + 1 .. text_id_value g]"
    and t: "set (text_ids (yielded g)) \<subseteq> set (allocated g)"
    unfolding alloc_inv_def by blast+
  note s = seed_is_max[of e]
  have b: "\<forall>i \<in> set (allocated g). \<forall>j \<in> set (text_old_ids e). j < i"
    using seed_bounds_stored[of _ e] by (fastforce simp: a)
  have n: "fst (next_text_id g) = text_id_value g + 1" by (simp add: next_text_id_def Let_def)
  from a have "sorted_wrt (<) (allocated g)" and "distinct (allocated g)" by simp_all
  with s a n b t show ?thesis by blast
qed


theorem text_ids_increase_from_seed_witness:
  "get_text_id_gen env_content = 7
   \<and> allocated (gen_update env_content 0) = [8, 9]
   \<and> text_ids (yielded (gen_update env_content 0)) = [8, 9]
   \<and> distinct (allocated (gen_update env_content 0))"
proof -
  have v: "text_id_value (gen_update env_content 0) = 9"
    and y: "text_ids (yielded (gen_update env_content 0)) = [8, 9]"
    by (simp_all add: env_content_def rev5_def run_simps gen_text_def next_text_id_def
          text_ids_def map_filter_simps)
  have o: "text_old_ids env_content = [3, 7]" by (simp add: env_content_def env0_def)
  note T = text_ids_increase_from_seed[of "gen_update env_content 0" env_content 0]
  from T have s: "get_text_id_gen env_content = 7" by (simp add: o)
  from T have a: "allocated (gen_update env_content 0) = [8, 9]"
    by (simp add: s v upto_rec1)
  from T have b: "distinct (allocated (gen_update env_content 0))"
    by blast
  from s a y b show ?thesis by blast
qed

subsection \<open>Applying the statements again\<close>


















subsection \<open>The net effect of tag changes\<close>

lemma tags_get_update:
  "tags_get (AList.update k v d) k' = (if k' = k then v else tags_get d k')"
  by (simp add: tags_get_def AList.update_conv')

lemma tags_get_absent: "k \<notin> set (map fst d) \<Longrightarrow> tags_get d k = []"
  by (simp add: tags_get_def map_of_eq_None_iff[THEN iffD2])

lemma tags_get_present:
  "distinct (map fst d) \<Longrightarrow> (k, v) \<in> set d \<Longrightarrow> tags_get d k = v"
  by (simp add: tags_get_def)

lemma tag_added_step:
  assumes "tags_disjoint ar"
  shows "tags_disjoint (tag_added r t ar)"
    and "pending_of (tag_added r t ar) r' t' =
           (if r' = r \<and> t' = t then spec_add (pending_of ar r t) else pending_of ar r' t')"
  using assms
  by (cases ar; auto simp: tag_added_def tags_disjoint_def pending_of_def tags_get_update
        set_add_def spec_add_def AList.distinct_update)+

lemma tag_removed_step:
  assumes "tags_disjoint ar"
  shows "tags_disjoint (tag_removed r t ar)"
    and "pending_of (tag_removed r t ar) r' t' =
           (if r' = r \<and> t' = t then spec_remove (pending_of ar r t) else pending_of ar r' t')"
  using assms
  by (cases ar; auto simp: tag_removed_def tags_disjoint_def pending_of_def tags_get_update
        set_add_def spec_remove_def AList.distinct_update)+

lemma fold_tag_added:
  "tags_disjoint ar \<Longrightarrow> distinct ts \<Longrightarrow>
     tags_disjoint (fold (tag_added r) ts ar)
     \<and> pending_of (fold (tag_added r) ts ar) r' t' =
         (if r' = r \<and> t' \<in> set ts then spec_add (pending_of ar r t') else pending_of ar r' t')"
proof (induction ts arbitrary: ar)
  case Nil then show ?case by simp
next
  case (Cons t ts)
  from Cons.prems have d: "tags_disjoint (tag_added r t ar)" and ds: "distinct ts" and n: "t \<notin> set ts"
    by (simp_all add: tag_added_step(1))
  from Cons.IH[OF d ds] n show ?case
    by (auto simp: tag_added_step(2)[OF Cons.prems(1)])
qed

lemma fold_tag_removed:
  "tags_disjoint ar \<Longrightarrow> distinct ts \<Longrightarrow>
     tags_disjoint (fold (tag_removed r) ts ar)
     \<and> pending_of (fold (tag_removed r) ts ar) r' t' =
         (if r' = r \<and> t' \<in> set ts then spec_remove (pending_of ar r t') else pending_of ar r' t')"
proof (induction ts arbitrary: ar)
  case Nil then show ?case by simp
next
  case (Cons t ts)
  from Cons.prems have d: "tags_disjoint (tag_removed r t ar)" and ds: "distinct ts" and n: "t \<notin> set ts"
    by (simp_all add: tag_removed_step(1))
  from Cons.IH[OF d ds] n show ?case
    by (auto simp: tag_removed_step(2)[OF Cons.prems(1)])
qed

lemma tag_update_step:
  assumes "tag_update nrv ndrv ps st = Inr st'"
    and "tags_disjoint (added_tags st, removed_tags st)"
    and "R \<notin> set nrv" and "R \<notin> set ndrv"
  shows "tags_disjoint (added_tags st', removed_tags st')
     \<and> pending_of (added_tags st', removed_tags st') R t =
        (case ps of
           ParamsTag (Some r') tagsAdded tagsRemoved \<Rightarrow>
             if r' = R then
               (if t \<in> set tagsAdded then spec_add (pending_of (added_tags st, removed_tags st) R t)
                else if t \<in> set tagsRemoved
                  then spec_remove (pending_of (added_tags st, removed_tags st) R t)
                else pending_of (added_tags st, removed_tags st) R t)
             else pending_of (added_tags st, removed_tags st) R t
         | _ \<Rightarrow> pending_of (added_tags st, removed_tags st) R t)"
proof (cases ps)
  case (ParamsTag ro a rm)
  show ?thesis
  proof (cases ro)
    case None
    with ParamsTag assms show ?thesis by (simp add: tag_update_def)
  next
    case (Some r)
    show ?thesis
    proof (cases "r \<notin> set nrv \<and> r \<notin> set ndrv")
      case False
      with assms Some ParamsTag have "st' = st" and "r \<noteq> R" by (auto simp: tag_update_def)
      with assms Some ParamsTag show ?thesis by simp
    next
      case True
      let ?ar0 = "(added_tags st, removed_tags st)"
      let ?ar1 = "fold (tag_added r) (remdups a) ?ar0"
      let ?ar2 = "fold (tag_removed r) (remdups rm) ?ar1"
      from assms(1) True Some ParamsTag
      have dj: "\<forall>x \<in> set a. x \<notin> set rm"
        and st': "st' = st\<lparr>added_tags := fst ?ar2, removed_tags := snd ?ar2\<rparr>"
        by (auto simp: tag_update_def Let_def split: if_splits prod.splits)
      from fold_tag_added[OF assms(2), of "remdups a" r]
      have d1: "tags_disjoint ?ar1"
        and p1: "\<And>r' t'. pending_of ?ar1 r' t' =
           (if r' = r \<and> t' \<in> set a then spec_add (pending_of ?ar0 r t')
            else pending_of ?ar0 r' t')"
        by simp_all
      from fold_tag_removed[OF d1, of "remdups rm" r]
      have d2: "tags_disjoint ?ar2"
        and p2: "\<And>r' t'. pending_of ?ar2 r' t' =
           (if r' = r \<and> t' \<in> set rm then spec_remove (pending_of ?ar1 r t')
            else pending_of ?ar1 r' t')"
        by simp_all
      have e: "(added_tags st', removed_tags st') = ?ar2" by (simp add: st')
      show ?thesis unfolding e p2 p1 using d2 dj
        by (auto simp: ParamsTag Some)
    qed
  qed
qed (use assms in \<open>simp_all add: tag_update_def\<close>)

lemma logevent_step_tags:
  assumes "logevent_step nrv ndrv le st = Inr st'"
    and "tags_disjoint (added_tags st, removed_tags st)"
    and "R \<notin> set nrv" and "R \<notin> set ndrv"
  shows "tags_disjoint (added_tags st', removed_tags st')
     \<and> pending_of (added_tags st', removed_tags st') R t
        = net_step R t le (pending_of (added_tags st, removed_tags st) R t)"
proof (cases "le_type le = ''tag'' \<and> le_action le = ''update''")
  case True
  with assms(1) have "tag_update nrv ndrv (le_params le) st = Inr st'"
    by (simp add: logevent_step_def)
  from tag_update_step[OF this assms(2,3,4), of t] True show ?thesis
    by (simp add: net_step_def)
next
  case False
  with assms(1) have "added_tags st' = added_tags st" and "removed_tags st' = removed_tags st"
    by (auto simp: logevent_step_def split: if_splits le_params.splits)
  with False assms(2) show ?thesis by (auto simp: net_step_def)
qed

lemma log_loop_tags:
  "log_loop nrv ndrv log st = Inr st' \<Longrightarrow> tags_disjoint (added_tags st, removed_tags st)
   \<Longrightarrow> R \<notin> set nrv \<Longrightarrow> R \<notin> set ndrv \<Longrightarrow>
     tags_disjoint (added_tags st', removed_tags st')
     \<and> pending_of (added_tags st', removed_tags st') R t
        = fold (net_step R t) log (pending_of (added_tags st, removed_tags st) R t)"
proof (induction log arbitrary: st)
  case Nil then show ?case by simp
next
  case (Cons le log)
  from Cons.prems(1) obtain s1 where s: "logevent_step nrv ndrv le st = Inr s1"
    and l: "log_loop nrv ndrv log s1 = Inr st'" by (auto split: sum.splits)
  from logevent_step_tags[OF s Cons.prems(2,3,4), of t]
  have d: "tags_disjoint (added_tags s1, removed_tags s1)"
    and p: "pending_of (added_tags s1, removed_tags s1) R t
        = net_step R t le (pending_of (added_tags st, removed_tags st) R t)" by simp_all
  from Cons.IH[OF l d Cons.prems(3,4)] p show ?case by simp
qed


lemma added_tags_body_yields:
  "raised g = None \<Longrightarrow> added_tags_body e ra g = yields (added_tag_ops e ra) g"
proof -
  assume r: "raised g = None"
  have "for_each (\<lambda>t. yield (add_tag_op e (fst ra) t)) (snd ra) g
          = yields (concat (map (\<lambda>t. [add_tag_op e (fst ra) t]) (snd ra))) g"
    using _ r by (rule for_each_yield_only) (simp add: yield_def yields_def)
  moreover have "concat (map (\<lambda>t. [add_tag_op e (fst ra) t]) (snd ra)) = added_tag_ops e ra"
    by (induction "snd ra" arbitrary: ra) (simp_all add: added_tag_ops_def)
  ultimately show ?thesis by (cases ra) (simp add: added_tags_body_def)
qed

lemma removed_tags_body_yields:
  "raised g = None \<Longrightarrow> removed_tags_body rr g = yields (removed_tag_ops rr) g"
proof -
  assume r: "raised g = None"
  have "for_each (\<lambda>t g. yield (DeleteTaggedArchivedRevision (fst rr) t)
                          (yield (DeleteTaggedRevision (fst rr) t) g)) (snd rr) g
          = yields (concat (map (\<lambda>t. [DeleteTaggedRevision (fst rr) t,
                                        DeleteTaggedArchivedRevision (fst rr) t]) (snd rr))) g"
    using _ r by (rule for_each_yield_only) (simp add: yield_def yields_def)
  then show ?thesis by (cases rr) (simp add: removed_tags_body_def removed_tag_ops_def)
qed

lemma gen_tag_updates_yields:
  assumes "raised g = None"
  shows "gen_tag_updates e st g = yields (tag_ops e st) g"
proof -
  have a: "for_each (added_tags_body e) (added_tags st) g
      = yields (concat (map (added_tag_ops e) (added_tags st))) g"
    using added_tags_body_yields assms by (rule for_each_yield_only)
  have r: "raised (yields (concat (map (added_tag_ops e) (added_tags st))) g) = None"
    using assms by (simp add: yields_def)
  have b: "for_each removed_tags_body (removed_tags st)
             (yields (concat (map (added_tag_ops e) (added_tags st))) g)
      = yields (concat (map removed_tag_ops (removed_tags st)))
          (yields (concat (map (added_tag_ops e) (added_tags st))) g)"
    using removed_tags_body_yields r by (rule for_each_yield_only)
  show ?thesis
    by (simp add: gen_tag_updates_def and_then_def a b r tag_ops_def) (simp add: yields_def)
qed

lemma in_tags_get_iff:
  assumes "distinct (map fst al)"
  shows "(\<exists>s. (R, s) \<in> set al \<and> t \<in> set s) \<longleftrightarrow> t \<in> set (tags_get al R)"
proof
  assume "\<exists>s. (R, s) \<in> set al \<and> t \<in> set s"
  then obtain s where "(R, s) \<in> set al" and "t \<in> set s" by blast
  with assms show "t \<in> set (tags_get al R)" by (simp add: tags_get_present)
next
  assume t: "t \<in> set (tags_get al R)"
  then obtain s where "map_of al R = Some s" and "t \<in> set s"
    by (cases "map_of al R") (auto simp: tags_get_def)
  then show "\<exists>s. (R, s) \<in> set al \<and> t \<in> set s" by (blast dest: map_of_SomeD)
qed

lemma tag_op_rev_add [simp]: "tag_op_rev (add_tag_op e r t) = Some r"
  by (simp add: add_tag_op_def)

lemma added_ops_for:
  assumes "distinct (map fst al)"
  shows "{x \<in> set (concat (map (added_tag_ops e) al)). tag_op_rev x = Some R}
         = add_tag_op e R ` set (tags_get al R)"
proof -
  have "x \<in> set (concat (map (added_tag_ops e) al)) \<and> tag_op_rev x = Some R
        \<longleftrightarrow> (\<exists>s t. (R, s) \<in> set al \<and> t \<in> set s \<and> x = add_tag_op e R t)" for x
    by (auto simp: added_tag_ops_def) force+
  also have "\<dots> x \<longleftrightarrow> (\<exists>t. t \<in> set (tags_get al R) \<and> x = add_tag_op e R t)" for x
    using in_tags_get_iff[OF assms, of R] by blast
  finally show ?thesis by blast
qed

lemma removed_ops_for:
  assumes "distinct (map fst al)"
  shows "{x \<in> set (concat (map removed_tag_ops al)). tag_op_rev x = Some R}
         = {x. \<exists>t \<in> set (tags_get al R).
                 x = DeleteTaggedRevision R t \<or> x = DeleteTaggedArchivedRevision R t}"
proof -
  have "x \<in> set (concat (map removed_tag_ops al)) \<and> tag_op_rev x = Some R
        \<longleftrightarrow> (\<exists>s t. (R, s) \<in> set al \<and> t \<in> set s
               \<and> (x = DeleteTaggedRevision R t \<or> x = DeleteTaggedArchivedRevision R t))" for x
    by (auto simp: removed_tag_ops_def) force+
  also have "\<dots> x \<longleftrightarrow> (\<exists>t. t \<in> set (tags_get al R)
               \<and> (x = DeleteTaggedRevision R t \<or> x = DeleteTaggedArchivedRevision R t))" for x
    using in_tags_get_iff[OF assms, of R] by blast
  finally show ?thesis by blast
qed

lemma pending_of_sets:
  assumes "tags_disjoint ar"
  shows "set (tags_get (fst ar) R) = {t. pending_of ar R t = PendingAdd}"
    and "set (tags_get (snd ar) R) = {t. pending_of ar R t = PendingRemove}"
  using assms by (auto simp: pending_of_def tags_disjoint_def)

text \<open>
  Claim C1. Let \<open>R\<close> be a revision that the loop does not skip as new, and let the
  loop over a log end without an exception. Then the tags in \<open>added_tags\<close> for \<open>R\<close> are
  the tags whose net effect over the raw events of the log is a pending add, and those
  in \<open>removed_tags\<close> the tags whose net effect is a pending remove, where an add cancels
  a pending remove and a remove a pending add. The tag phase does not raise, and the
  statements it yields for \<open>R\<close> are one insert for each tag of the first kind and the two
  deletes for each tag of the second. For the events add \<open>T1\<close>, remove \<open>T1\<close>, add \<open>T2\<close>
  the tag phase yields the insert of \<open>T2\<close> for \<open>R\<close> and nothing else.
\<close>

theorem tag_net_effect:
  assumes "log_loop nrv ndrv log init_lstate = Inr st"
    and "R \<notin> set nrv" and "R \<notin> set ndrv" and "raised g = None"
  shows "set (tags_get (added_tags st) R) = {t. net_effect log R t = PendingAdd}
     \<and> set (tags_get (removed_tags st) R) = {t. net_effect log R t = PendingRemove}
     \<and> gen_tag_updates e st g = yields (tag_ops e st) g
     \<and> {x \<in> set (tag_ops e st). tag_op_rev x = Some R}
         = {x. \<exists>t. net_effect log R t = PendingAdd \<and> x = add_tag_op e R t}
           \<union> {x. \<exists>t. net_effect log R t = PendingRemove
                   \<and> (x = DeleteTaggedRevision R t \<or> x = DeleteTaggedArchivedRevision R t)}
     \<and> (log = log_add_remove_add R T1 T2 \<longrightarrow>
          gen_tag_updates e st g = yield (add_tag_op e R T2) g)"
proof -
  have i: "tags_disjoint (added_tags init_lstate, removed_tags init_lstate)"
    by (simp add: tags_disjoint_def init_lstate_def tags_get_def)
  have p0: "pending_of (added_tags init_lstate, removed_tags init_lstate) R t = NoChange" for t
    by (simp add: pending_of_def init_lstate_def tags_get_def)
  from log_loop_tags[OF assms(1) i assms(2,3)]
  have d: "tags_disjoint (added_tags st, removed_tags st)"
    and p: "pending_of (added_tags st, removed_tags st) R t = net_effect log R t" for t
    by (simp_all add: p0 net_effect_def)
  from pending_of_sets[OF d, of R]
  have A: "set (tags_get (added_tags st) R) = {t. net_effect log R t = PendingAdd}"
    and B: "set (tags_get (removed_tags st) R) = {t. net_effect log R t = PendingRemove}"
    by (simp_all add: p)
  have C: "gen_tag_updates e st g = yields (tag_ops e st) g"
    using assms(4) by (rule gen_tag_updates_yields)
  from d have da: "distinct (map fst (added_tags st))" and dr: "distinct (map fst (removed_tags st))"
    by (simp_all add: tags_disjoint_def)
  have "{x \<in> set (tag_ops e st). tag_op_rev x = Some R}
      = {x \<in> set (concat (map (added_tag_ops e) (added_tags st))). tag_op_rev x = Some R}
        \<union> {x \<in> set (concat (map removed_tag_ops (removed_tags st))). tag_op_rev x = Some R}"
    unfolding tag_ops_def by auto
  also have "\<dots> = add_tag_op e R ` set (tags_get (added_tags st) R)
        \<union> {x. \<exists>t \<in> set (tags_get (removed_tags st) R).
                 x = DeleteTaggedRevision R t \<or> x = DeleteTaggedArchivedRevision R t}"
    by (simp only: added_ops_for[OF da] removed_ops_for[OF dr])
  also have "\<dots> = {x. \<exists>t. net_effect log R t = PendingAdd \<and> x = add_tag_op e R t}
           \<union> {x. \<exists>t. net_effect log R t = PendingRemove
                   \<and> (x = DeleteTaggedRevision R t \<or> x = DeleteTaggedArchivedRevision R t)}"
    unfolding A B by blast
  finally have D: "{x \<in> set (tag_ops e st). tag_op_rev x = Some R}
         = {x. \<exists>t. net_effect log R t = PendingAdd \<and> x = add_tag_op e R t}
           \<union> {x. \<exists>t. net_effect log R t = PendingRemove
                   \<and> (x = DeleteTaggedRevision R t \<or> x = DeleteTaggedArchivedRevision R t)}" .
  have E: "log = log_add_remove_add R T1 T2 \<longrightarrow>
          gen_tag_updates e st g = yield (add_tag_op e R T2) g"
  proof
    assume l: "log = log_add_remove_add R T1 T2"
    from assms(1,2,3) have "st = init_lstate\<lparr>added_tags := [(R, [T2])]\<rparr>"
      unfolding l
      by (simp add: log_add_remove_add_def tag_event_def logevent_step_def tag_update_def
            tag_added_def tag_removed_def tags_get_def init_lstate_def set_add_def)
    then have "tag_ops e st = [add_tag_op e R T2]"
      by (simp add: tag_ops_def added_tag_ops_def init_lstate_def)
    with C show "gen_tag_updates e st g = yield (add_tag_op e R T2) g"
      by (simp add: yields_def yield_def)
  qed
  from A B C D E show ?thesis by blast
qed


theorem tag_net_effect_witness:
  "log_loop [] [] (log_add_remove_add 5 ''t1'' ''t2'') init_lstate
     = Inr (init_lstate\<lparr>added_tags := [(5, [''t2''])]\<rparr>)
   \<and> gen_tag_updates env0 (init_lstate\<lparr>added_tags := [(5, [''t2''])]\<rparr>) (new_gen env0)
     = yield (InsertTaggedArchivedRevision 5 ''t2'') (new_gen env0)
   \<and> net_effect (log_add_remove_add 5 ''t1'' ''t2'') 5 ''t2'' = PendingAdd
   \<and> net_effect (log_add_remove_add 5 ''t1'' ''t2'') 5 ''t1'' \<noteq> PendingAdd"
proof -
  have l: "log_loop [] [] (log_add_remove_add 5 ''t1'' ''t2'') init_lstate
     = Inr (init_lstate\<lparr>added_tags := [(5, [''t2''])]\<rparr>)"
    by (simp add: log_add_remove_add_def tag_event_def logevent_step_def tag_update_def
          tag_added_def tag_removed_def tags_get_def init_lstate_def set_add_def)
  have r: "raised (new_gen env0) = None" by (simp add: new_gen_def)
  have n: "(5::int) \<notin> set []" by simp
  note T = tag_net_effect[OF l n n r, of env0 "''t1''" "''t2''"]
  note a = T[THEN conjunct1]
  have s: "set (tags_get (added_tags (init_lstate\<lparr>added_tags := [(5, [''t2''])]\<rparr>)) 5) = {''t2''}"
    by (simp add: tags_get_def)
  have "''t2'' \<in> {t. net_effect (log_add_remove_add 5 ''t1'' ''t2'') 5 t = PendingAdd}"
    and "''t1'' \<notin> {t. net_effect (log_add_remove_add 5 ''t1'' ''t2'') 5 t = PendingAdd}"
    unfolding a[symmetric] s by simp_all
  then have c: "net_effect (log_add_remove_add 5 ''t1'' ''t2'') 5 ''t2'' = PendingAdd"
    and d: "net_effect (log_add_remove_add 5 ''t1'' ''t2'') 5 ''t1'' \<noteq> PendingAdd"
    by simp_all
  have "gen_tag_updates env0 (init_lstate\<lparr>added_tags := [(5, [''t2''])]\<rparr>) (new_gen env0)
     = yield (add_tag_op env0 5 ''t2'') (new_gen env0)"
    by (rule T[THEN conjunct2, THEN conjunct2, THEN conjunct2, THEN conjunct2, rule_format,
          OF refl])
  then have b: "gen_tag_updates env0 (init_lstate\<lparr>added_tags := [(5, [''t2''])]\<rparr>) (new_gen env0)
     = yield (InsertTaggedArchivedRevision 5 ''t2'') (new_gen env0)"
    by (simp add: add_tag_op_def env0_def)
  from l b c d show ?thesis by (intro conjI)
qed

end
